theory Spec2Isabelle
  imports Main "HOL-Library.Multiset" "HOL-Library.Product_Lexorder"
begin

section \<open>Python strings and the built-in string operations the script calls\<close>

text \<open>
  A Python \<open>str\<close> is a sequence of Unicode code points. Code points are natural
  numbers here, so that \<open>len\<close> and iteration count what Python counts.
\<close>

type_synonym codepoint = nat
type_synonym ustring = "codepoint list"

definition ustr :: "string \<Rightarrow> ustring" where
  \<comment> \<open>an ASCII literal of the source as a Python string\<close>
  "ustr s = map of_char s"

definition py_isspace :: "codepoint \<Rightarrow> bool" where
  \<comment> \<open>the code points at which \<open>str.split()\<close> splits (those with \<open>str.isspace\<close>):
      U+0009..U+000D, U+001C..U+0020, U+0085, U+00A0, U+1680, U+2000..U+200A,
      U+2028, U+2029, U+202F, U+205F, U+3000\<close>
  "py_isspace c \<longleftrightarrow>
     (9 \<le> c \<and> c \<le> 13) \<or> (28 \<le> c \<and> c \<le> 32) \<or> c = 133 \<or> c = 160 \<or> c = 5760 \<or>
     (8192 \<le> c \<and> c \<le> 8202) \<or> c = 8232 \<or> c = 8233 \<or> c = 8239 \<or> c = 8287 \<or> c = 12288"

text \<open>
  \<open>s.split()\<close> without arguments: skip whitespace, cut the maximal run of
  non-whitespace, repeat; no empty token is produced.
\<close>

function py_split :: "ustring \<Rightarrow> ustring list" where
  "py_split s =
     (case dropWhile py_isspace s of
        [] \<Rightarrow> []
      | c # r \<Rightarrow> takeWhile (\<lambda>d. \<not> py_isspace d) (c # r)
                 # py_split (dropWhile (\<lambda>d. \<not> py_isspace d) (c # r)))"
  by pat_completeness auto
termination
proof (relation "measure length")
  show "wf (measure length)" by simp
next
  fix s :: ustring and c r
  assume h: "dropWhile py_isspace s = c # r"
  have "\<not> py_isspace c"
    using h hd_dropWhile [of py_isspace s] by force
  then have "length (dropWhile (\<lambda>d. \<not> py_isspace d) (c # r)) \<le> length r"
    by (simp add: length_dropWhile_le)
  moreover have "length (c # r) \<le> length s"
    using h length_dropWhile_le [of py_isspace s] by simp
  ultimately show "(dropWhile (\<lambda>d. \<not> py_isspace d) (c # r), s) \<in> measure length"
    by simp
qed

declare py_split.simps [simp del]

fun py_join :: "ustring \<Rightarrow> ustring list \<Rightarrow> ustring" where
  \<comment> \<open>\<open>sep.join(tokens)\<close>\<close>
  "py_join sep [] = []"
| "py_join sep [t] = t"
| "py_join sep (t # u # ts) = t @ sep @ py_join sep (u # ts)"

section \<open>The Unicode services the script calls\<close>

text \<open>
  \<open>normalize_name\<close> calls \<open>unicodedata.normalize('NFD', s)\<close>,
  \<open>unicodedata.category(c)\<close> and \<open>s.lower()\<close>. Their tables belong to the
  interpreter, not to the script, so the model takes the three operations as a
  parameter; \<open>category\<close> returns the two-letter general category as Python does.
\<close>

record unicode =
  normalize_NFD :: "ustring \<Rightarrow> ustring"
  category :: "codepoint \<Rightarrow> string"
  lower :: "ustring \<Rightarrow> ustring"

section \<open>normalize\_name\<close>

definition normalize_name :: "unicode \<Rightarrow> ustring \<Rightarrow> ustring" where
  "normalize_name U name =
     (let name1 = normalize_NFD U name;
          name2 = filter (\<lambda>char. category U char \<noteq> ''Mn'') name1
      in py_join [32] (py_split (lower U name2)))"

section \<open>Data of the aggregation\<close>

text \<open>
  The dictionaries of \<open>main\<close>. A player of \<open>all_player_stats\<close> and of
  \<open>unmatched_players\<close> has the keys name, goals, assists; a record returned by
  \<open>fetch_quanthockey_stats\<close> and a member of a team's \<open>players\<close> list has the key
  points as well. The counters are Python integers.
\<close>

record player_stats =
  name :: ustring
  goals :: int
  assists :: int

record player = player_stats +
  points :: int

record team_stats =
  team_points :: int
  team_goals :: int
  team_assists :: int
  players :: "player list"

text \<open>
  A Python \<open>dict\<close> keeps its keys in insertion order, and \<open>main\<close> iterates
  \<open>all_player_stats.items()\<close> and sorts \<open>nhl_team_stats.items()\<close>, so a dict is a
  list of key/value pairs: a new key goes to the end, a known key keeps its place.
\<close>

type_synonym ('k, 'v) py_dict = "('k \<times> 'v) list"

definition dict_get :: "('k, 'v) py_dict \<Rightarrow> 'k \<Rightarrow> 'v option" where
  "dict_get d k = map_of d k"

fun dict_set :: "('k, 'v) py_dict \<Rightarrow> 'k \<Rightarrow> 'v \<Rightarrow> ('k, 'v) py_dict" where
  "dict_set [] k v = [(k, v)]"
| "dict_set ((k', v') # d) k v =
     (if k' = k then (k, v) # d else (k', v') # dict_set d k v)"

section \<open>Step 1: merging the per-country record lists (lines 344-362)\<close>

definition merge_player ::
  "unicode \<Rightarrow> (ustring, player_stats) py_dict \<Rightarrow> player \<Rightarrow> (ustring, player_stats) py_dict"
where
  "merge_player U all_player_stats p =
     (let name_key = normalize_name U (name p) in
      case dict_get all_player_stats name_key of
        None \<Rightarrow>
          dict_set all_player_stats name_key
            \<lparr>name = name p, goals = goals p, assists = assists p\<rparr>
      | Some e \<Rightarrow>
          dict_set all_player_stats name_key
            (e\<lparr>goals := goals e + goals p, assists := assists e + assists p\<rparr>))"

definition collect_player_stats ::
  "unicode \<Rightarrow> player list list \<Rightarrow> (ustring, player_stats) py_dict"
where
  \<comment> \<open>the argument holds, country by country, what \<open>fetch_quanthockey_stats\<close>
      returned\<close>
  "collect_player_stats U fetched =
     foldl (\<lambda>all_player_stats players. foldl (merge_player U) all_player_stats players)
       [] fetched"

section \<open>Step 3: aggregation by NHL team (lines 371-399)\<close>

definition new_team_stats :: team_stats where
  \<comment> \<open>the factory of the \<open>defaultdict\<close>\<close>
  "new_team_stats = \<lparr>team_points = 0, team_goals = 0, team_assists = 0, players = []\<rparr>"

definition team_entry :: "(string, team_stats) py_dict \<Rightarrow> string \<Rightarrow> team_stats" where
  \<comment> \<open>\<open>nhl_team_stats[nhl_team]\<close>: the entry, a fresh one when the key is new\<close>
  "team_entry nhl_team_stats nhl_team =
     (case dict_get nhl_team_stats nhl_team of None \<Rightarrow> new_team_stats | Some t \<Rightarrow> t)"

definition add_to_team ::
  "(string, team_stats) py_dict \<Rightarrow> string \<Rightarrow> player_stats \<Rightarrow> (string, team_stats) py_dict"
where
  "add_to_team nhl_team_stats nhl_team stats =
     (let pts = goals stats + assists stats;
          t = team_entry nhl_team_stats nhl_team
      in dict_set nhl_team_stats nhl_team
           \<lparr>team_points = team_points t + pts,
            team_goals = team_goals t + goals stats,
            team_assists = team_assists t + assists stats,
            players = players t @
              [\<lparr>name = name stats, goals = goals stats, assists = assists stats,
                points = pts\<rparr>]\<rparr>)"

definition aggregate_player ::
  "(ustring \<rightharpoonup> string) \<Rightarrow> (string, team_stats) py_dict \<times> player_stats list \<Rightarrow>
   ustring \<times> player_stats \<Rightarrow> (string, team_stats) py_dict \<times> player_stats list"
where
  \<comment> \<open>one round of the loop; \<open>if nhl_team:\<close> is false for \<open>None\<close> and for the
      empty string\<close>
  "aggregate_player player_to_team acc item =
     (case acc of (nhl_team_stats, unmatched_players) \<Rightarrow>
      case item of (normalized_name, stats) \<Rightarrow>
        (case player_to_team normalized_name of
           Some nhl_team \<Rightarrow>
             if nhl_team \<noteq> []
             then (add_to_team nhl_team_stats nhl_team stats, unmatched_players)
             else (nhl_team_stats, unmatched_players @
                     [\<lparr>name = name stats, goals = goals stats, assists = assists stats\<rparr>])
         | None \<Rightarrow>
             (nhl_team_stats, unmatched_players @
                [\<lparr>name = name stats, goals = goals stats, assists = assists stats\<rparr>])))"

definition aggregate_by_team ::
  "(ustring, player_stats) py_dict \<Rightarrow> (ustring \<rightharpoonup> string) \<Rightarrow>
   (string, team_stats) py_dict \<times> player_stats list"
where
  \<comment> \<open>the whole loop on its two accumulators, from empty ones\<close>
  "aggregate_by_team all_player_stats player_to_team =
     foldl (aggregate_player player_to_team) ([], []) all_player_stats"

section \<open>Step 4: ranking (lines 406-411)\<close>

definition py_sorted_reverse :: "('a \<Rightarrow> 'k::linorder) \<Rightarrow> 'a list \<Rightarrow> 'a list" where
  \<comment> \<open>\<open>sorted(xs, key=f, reverse=True)\<close>: Python reverses, sorts stably in
      ascending order and reverses again, so equal keys keep their order\<close>
  "py_sorted_reverse f xs = rev (sort_key f (rev xs))"

definition rank_key :: "string \<times> team_stats \<Rightarrow> int \<times> int" where
  "rank_key x = (team_points (snd x), team_goals (snd x))"

definition sort_teams :: "(string, team_stats) py_dict \<Rightarrow> (string \<times> team_stats) list" where
  "sort_teams nhl_team_stats = py_sorted_reverse rank_key nhl_team_stats"

section \<open>The variables of main and the aggregation step (lines 371-411)\<close>

text \<open>
  The step works on variables of \<open>main\<close> and prints; the state holds the variables
  and what has been written to standard output, one string for every call of
  \<open>print\<close>.
\<close>

record main_state =
  all_player_stats :: "(ustring, player_stats) py_dict"
  player_to_team :: "ustring \<rightharpoonup> string"
  nhl_team_stats :: "(string, team_stats) py_dict"
  unmatched_players :: "player_stats list"
  sorted_teams :: "(string \<times> team_stats) list"
  stdout :: "string list"

definition py_print :: "string \<Rightarrow> main_state \<Rightarrow> main_state" where
  "py_print line s = s\<lparr>stdout := stdout s @ [line]\<rparr>"

definition aggregate_item :: "main_state \<Rightarrow> ustring \<times> player_stats \<Rightarrow> main_state" where
  \<comment> \<open>one round of the loop of lines 380-399, on the variables\<close>
  "aggregate_item s item =
     (case aggregate_player (player_to_team s) (nhl_team_stats s, unmatched_players s) item of
        (teams, unmatched) \<Rightarrow> s\<lparr>nhl_team_stats := teams, unmatched_players := unmatched\<rparr>)"

definition aggregation :: "main_state \<Rightarrow> main_state" where
  \<comment> \<open>lines 371-378: both accumulators start empty; 380-399: the loop over the items
      of \<open>all_player_stats\<close>; 402-404: three header lines; 407-411: the sort result
      is bound to \<open>sorted_teams\<close>\<close>
  "aggregation s =
     (let s1 = s\<lparr>nhl_team_stats := [], unmatched_players := []\<rparr>;
          s2 = foldl aggregate_item s1 (all_player_stats s1);
          s3 = py_print (CHR 0x0A # replicate 70 CHR ''='') s2;
          s4 = py_print ''NHL TEAM RANKINGS BY OLYMPIC POINTS'' s3;
          s5 = py_print (replicate 70 CHR ''='') s4
      in s5\<lparr>sorted_teams := sort_teams (nhl_team_stats s5)\<rparr>)"

section \<open>An excerpt of the Unicode Character Database\<close>

text \<open>
  Concrete values of the three Unicode services, for evaluating the script on concrete
  names. The excerpt covers Basic Latin and Latin-1 Supplement (U+0000..U+00FF),
  Combining Diacritical Marks (U+0300..U+036F) and the marks U+20DD, U+302E, U+302F
  and U+1D165, with the general categories, canonical combining classes, canonical
  decompositions and lowercase mappings of Unicode 14.0. A code point outside the
  excerpt is treated like an unassigned one: category Cn, class 0, no decomposition,
  no case mapping.
\<close>

fun range_lookup :: "(nat \<times> nat \<times> 'a) list \<Rightarrow> 'a \<Rightarrow> nat \<Rightarrow> 'a" where
  "range_lookup [] d c = d"
| "range_lookup ((lo, hi, v) # rs) d c =
     (if lo \<le> c \<and> c \<le> hi then v else range_lookup rs d c)"

definition ucd_category_ranges :: "(nat \<times> nat \<times> string) list" where
  "ucd_category_ranges =
     [(0, 31, ''Cc''), (32, 32, ''Zs''), (33, 35, ''Po''), (36, 36, ''Sc''), (37, 39, ''Po''),
      (40, 40, ''Ps''), (41, 41, ''Pe''), (42, 42, ''Po''), (43, 43, ''Sm''), (44, 44,
      ''Po''), (45, 45, ''Pd''), (46, 47, ''Po''), (48, 57, ''Nd''), (58, 59, ''Po''), (60,
      62, ''Sm''), (63, 64, ''Po''), (65, 90, ''Lu''), (91, 91, ''Ps''), (92, 92, ''Po''),
      (93, 93, ''Pe''), (94, 94, ''Sk''), (95, 95, ''Pc''), (96, 96, ''Sk''), (97, 122,
      ''Ll''), (123, 123, ''Ps''), (124, 124, ''Sm''), (125, 125, ''Pe''), (126, 126, ''Sm''),
      (127, 159, ''Cc''), (160, 160, ''Zs''), (161, 161, ''Po''), (162, 165, ''Sc''), (166,
      166, ''So''), (167, 167, ''Po''), (168, 168, ''Sk''), (169, 169, ''So''), (170, 170,
      ''Lo''), (171, 171, ''Pi''), (172, 172, ''Sm''), (173, 173, ''Cf''), (174, 174, ''So''),
      (175, 175, ''Sk''), (176, 176, ''So''), (177, 177, ''Sm''), (178, 179, ''No''), (180,
      180, ''Sk''), (181, 181, ''Ll''), (182, 183, ''Po''), (184, 184, ''Sk''), (185, 185,
      ''No''), (186, 186, ''Lo''), (187, 187, ''Pf''), (188, 190, ''No''), (191, 191, ''Po''),
      (192, 214, ''Lu''), (215, 215, ''Sm''), (216, 222, ''Lu''), (223, 246, ''Ll''), (247,
      247, ''Sm''), (248, 255, ''Ll''), (768, 879, ''Mn''), (8413, 8413, ''Me''), (12334,
      12335, ''Mc''), (119141, 119141, ''Mc'')]"

definition ucd_category :: "codepoint \<Rightarrow> string" where
  "ucd_category c = range_lookup ucd_category_ranges ''Cn'' c"

definition ucd_combining_ranges :: "(nat \<times> nat \<times> nat) list" where
  "ucd_combining_ranges =
     [(768, 788, 230), (789, 789, 232), (790, 793, 220), (794, 794, 232), (795, 795, 216),
      (796, 800, 220), (801, 802, 202), (803, 806, 220), (807, 808, 202), (809, 819, 220),
      (820, 824, 1), (825, 828, 220), (829, 836, 230), (837, 837, 240), (838, 838, 230), (839,
      841, 220), (842, 844, 230), (845, 846, 220), (848, 850, 230), (851, 854, 220), (855,
      855, 230), (856, 856, 232), (857, 858, 220), (859, 859, 230), (860, 860, 233), (861,
      862, 234), (863, 863, 233), (864, 865, 234), (866, 866, 233), (867, 879, 230), (12334,
      12335, 224), (119141, 119141, 216)]"

definition ucd_combining :: "codepoint \<Rightarrow> nat" where
  \<comment> \<open>the canonical combining class\<close>
  "ucd_combining c = range_lookup ucd_combining_ranges 0 c"

definition ucd_decomposition_table :: "(codepoint \<times> ustring) list" where
  "ucd_decomposition_table =
     [(192, [65, 768]), (193, [65, 769]), (194, [65, 770]), (195, [65, 771]), (196, [65,
      776]), (197, [65, 778]), (199, [67, 807]), (200, [69, 768]), (201, [69, 769]), (202,
      [69, 770]), (203, [69, 776]), (204, [73, 768]), (205, [73, 769]), (206, [73, 770]),
      (207, [73, 776]), (209, [78, 771]), (210, [79, 768]), (211, [79, 769]), (212, [79,
      770]), (213, [79, 771]), (214, [79, 776]), (217, [85, 768]), (218, [85, 769]), (219,
      [85, 770]), (220, [85, 776]), (221, [89, 769]), (224, [97, 768]), (225, [97, 769]),
      (226, [97, 770]), (227, [97, 771]), (228, [97, 776]), (229, [97, 778]), (231, [99,
      807]), (232, [101, 768]), (233, [101, 769]), (234, [101, 770]), (235, [101, 776]), (236,
      [105, 768]), (237, [105, 769]), (238, [105, 770]), (239, [105, 776]), (241, [110, 771]),
      (242, [111, 768]), (243, [111, 769]), (244, [111, 770]), (245, [111, 771]), (246, [111,
      776]), (249, [117, 768]), (250, [117, 769]), (251, [117, 770]), (252, [117, 776]), (253,
      [121, 769]), (255, [121, 776]), (832, [768]), (833, [769]), (835, [787]), (836, [776,
      769])]"

definition ucd_decomposition :: "codepoint \<Rightarrow> ustring" where
  \<comment> \<open>the full canonical decomposition of one code point\<close>
  "ucd_decomposition c = (case map_of ucd_decomposition_table c of None \<Rightarrow> [c] | Some d \<Rightarrow> d)"

text \<open>
  Canonical ordering: within every run of characters of non-zero combining class the
  characters are sorted by class, stably; a character of class 0 is never moved.
\<close>

fun canonical_insert :: "(codepoint \<Rightarrow> nat) \<Rightarrow> codepoint \<Rightarrow> ustring \<Rightarrow> ustring" where
  "canonical_insert ccc c [] = [c]"
| "canonical_insert ccc c (d # s) =
     (if 0 < ccc d \<and> ccc d < ccc c then d # canonical_insert ccc c s else c # d # s)"

fun canonical_order :: "(codepoint \<Rightarrow> nat) \<Rightarrow> ustring \<Rightarrow> ustring" where
  "canonical_order ccc [] = []"
| "canonical_order ccc (c # s) =
     (if ccc c = 0 then c # canonical_order ccc s
      else canonical_insert ccc c (canonical_order ccc s))"

definition ucd_normalize_NFD :: "ustring \<Rightarrow> ustring" where
  \<comment> \<open>NFD: decompose every character, then put the marks in canonical order\<close>
  "ucd_normalize_NFD s = canonical_order ucd_combining (concat (map ucd_decomposition s))"

definition ucd_tolower :: "codepoint \<Rightarrow> codepoint" where
  \<comment> \<open>A..Z and the capital letters U+00C0..U+00DE without the multiplication sign U+00D7\<close>
  "ucd_tolower c =
     (if (65 \<le> c \<and> c \<le> 90) \<or> (192 \<le> c \<and> c \<le> 214) \<or> (216 \<le> c \<and> c \<le> 222)
      then c + 32 else c)"

definition ucd_lower :: "ustring \<Rightarrow> ustring" where
  "ucd_lower s = map ucd_tolower s"

definition ucd :: unicode where
  "ucd = \<lparr>normalize_NFD = ucd_normalize_NFD, category = ucd_category, lower = ucd_lower\<rparr>"

section \<open>Vocabulary of the statements\<close>

text \<open>
  The definitions of this section are not code of the script; the statements below are
  written with them.
\<close>

subsection \<open>The aggregation\<close>

definition matched_team :: "(ustring \<rightharpoonup> string) \<Rightarrow> ustring \<Rightarrow> string option" where
  \<comment> \<open>the team the loop files a key under, if any\<close>
  "matched_team roster k =
     (case roster k of
        Some t \<Rightarrow> if t \<noteq> [] then Some t else None
      | None \<Rightarrow> None)"

definition with_points :: "player_stats \<Rightarrow> player" where
  \<comment> \<open>a record of the source statistics as it stands in a team's player list\<close>
  "with_points s =
     \<lparr>name = name s, goals = goals s, assists = assists s, points = goals s + assists s\<rparr>"

definition without_points :: "player \<Rightarrow> player_stats" where
  "without_points p = \<lparr>name = name p, goals = goals p, assists = assists p\<rparr>"

definition team_players :: "(string, team_stats) py_dict \<Rightarrow> string \<Rightarrow> player list" where
  \<comment> \<open>the player list of team \<open>t\<close>, empty when the team has no entry\<close>
  "team_players teams t = (case dict_get teams t of None \<Rightarrow> [] | Some a \<Rightarrow> players a)"

definition all_team_players :: "(string, team_stats) py_dict \<Rightarrow> player list" where
  \<comment> \<open>the player lists of all teams, one after the other\<close>
  "all_team_players teams = concat (map (\<lambda>x. players (snd x)) teams)"

definition sums_agree :: "team_stats \<Rightarrow> bool" where
  \<comment> \<open>the three counters of a team are the sums over its player list\<close>
  "sums_agree a \<longleftrightarrow>
     team_points a = (\<Sum>p\<leftarrow>players a. goals p + assists p) \<and>
     team_goals a = (\<Sum>p\<leftarrow>players a. goals p) \<and>
     team_assists a = (\<Sum>p\<leftarrow>players a. assists p)"

text \<open>A list without its repetitions, every element at its first position.\<close>

fun first_occurrences :: "'a list \<Rightarrow> 'a list" where
  "first_occurrences [] = []"
| "first_occurrences (x # xs) = x # filter (\<lambda>y. y \<noteq> x) (first_occurrences xs)"

definition matched_teams ::
  "(ustring \<rightharpoonup> string) \<Rightarrow> (ustring, player_stats) py_dict \<Rightarrow> string list" where
  \<comment> \<open>the teams of the matched players, in the order of the iteration\<close>
  "matched_teams roster stats = List.map_filter (\<lambda>x. matched_team roster (fst x)) stats"

definition header_lines :: "string list" where
  \<comment> \<open>what lines 402-404 print\<close>
  "header_lines =
     [CHR 0x0A # replicate 70 CHR ''='', ''NHL TEAM RANKINGS BY OLYMPIC POINTS'',
      replicate 70 CHR ''='']"

subsection \<open>The merge\<close>

definition merge_entry :: "player_stats option \<Rightarrow> player \<Rightarrow> player_stats option" where
  \<comment> \<open>what one more record does to the entry of its key\<close>
  "merge_entry eo p =
     (case eo of
        None \<Rightarrow> Some \<lparr>name = name p, goals = goals p, assists = assists p\<rparr>
      | Some e \<Rightarrow> Some (e\<lparr>goals := goals e + goals p, assists := assists e + assists p\<rparr>))"

subsection \<open>The normalizer in the words of the specification\<close>

text \<open>
  The specification: decompose the input into canonical decomposed Unicode form; drop
  all characters classified as combining marks; lowercase the result; split on runs of
  whitespace and rejoin with single spaces, trimming leading and trailing whitespace.
  A key is lowercase, with whitespace collapsed to single spaces and leading and
  trailing whitespace trimmed.
\<close>

definition rstrip :: "ustring \<Rightarrow> ustring" where
  "rstrip s = rev (dropWhile py_isspace (rev s))"

definition trim :: "ustring \<Rightarrow> ustring" where
  \<comment> \<open>without leading and trailing whitespace\<close>
  "trim s = rev (dropWhile py_isspace (rev (dropWhile py_isspace s)))"

fun collapse_runs :: "ustring \<Rightarrow> ustring" where
  \<comment> \<open>one space for every run of whitespace\<close>
  "collapse_runs [] = []"
| "collapse_runs [c] = [if py_isspace c then 32 else c]"
| "collapse_runs (c # d # s) =
     (if py_isspace c \<and> py_isspace d then collapse_runs (d # s)
      else (if py_isspace c then 32 else c) # collapse_runs (d # s))"

definition spec_whitespace :: "ustring \<Rightarrow> ustring" where
  "spec_whitespace s = collapse_runs (trim s)"

definition is_combining_mark :: "unicode \<Rightarrow> codepoint \<Rightarrow> bool" where
  \<comment> \<open>Unicode's combining marks are the general categories Mn (nonspacing),
      Mc (spacing) and Me (enclosing)\<close>
  "is_combining_mark U c \<longleftrightarrow>
     category U c = ''Mn'' \<or> category U c = ''Mc'' \<or> category U c = ''Me''"

definition is_nonspacing_mark :: "unicode \<Rightarrow> codepoint \<Rightarrow> bool" where
  "is_nonspacing_mark U c \<longleftrightarrow> category U c = ''Mn''"

definition spec_normalize ::
  "(unicode \<Rightarrow> codepoint \<Rightarrow> bool) \<Rightarrow> unicode \<Rightarrow> ustring \<Rightarrow> ustring" where
  \<comment> \<open>the specification's algorithm, for a given class of dropped characters\<close>
  "spec_normalize dropped U x =
     spec_whitespace (lower U (filter (\<lambda>c. \<not> dropped U c) (normalize_NFD U x)))"

subsection \<open>What statements assume of the Unicode services\<close>

definition ascii_lower :: "codepoint \<Rightarrow> codepoint" where
  "ascii_lower c = (if 65 \<le> c \<and> c \<le> 90 then c + 32 else c)"

definition ascii_services :: "unicode \<Rightarrow> bool" where
  \<comment> \<open>on ASCII text NFD changes nothing and lowercasing maps A..Z to a..z; no ASCII
      character is a nonspacing mark\<close>
  "ascii_services U \<longleftrightarrow>
     (\<forall>s. (\<forall>c\<in>set s. c < 128) \<longrightarrow> normalize_NFD U s = s \<and> lower U s = map ascii_lower s)
     \<and> (\<forall>c. c < 128 \<longrightarrow> category U c \<noteq> ''Mn'')"

section \<open>Sample inputs\<close>

definition leo_dube :: ustring where
  \<comment> \<open>L, U+00E9, o, space, D, u, b, U+00E9\<close>
  "leo_dube = [76, 233, 111, 32, 68, 117, 98, 233]"

definition circled_a :: ustring where
  \<comment> \<open>a, U+20DD COMBINING ENCLOSING CIRCLE\<close>
  "circled_a = [97, 8413]"

definition tone_marks :: ustring where
  \<comment> \<open>a, U+302E HANGUL SINGLE DOT TONE MARK, U+034F COMBINING GRAPHEME JOINER,
      U+1D165 MUSICAL SYMBOL COMBINING STEM\<close>
  "tone_marks = [97, 12334, 847, 119141]"

definition sample_stats :: "(ustring, player_stats) py_dict" where
  "sample_stats =
     [(ustr ''connor mcdavid'', \<lparr>name = ustr ''Connor McDavid'', goals = 3, assists = 5\<rparr>),
      (ustr ''jane doe'', \<lparr>name = ustr ''Jane Doe'', goals = 1, assists = 0\<rparr>),
      (ustr ''sidney crosby'', \<lparr>name = ustr ''Sidney Crosby'', goals = 1, assists = 4\<rparr>),
      (ustr ''leon draisaitl'', \<lparr>name = ustr ''Leon Draisaitl'', goals = 2, assists = 2\<rparr>),
      (ustr ''auston matthews'', \<lparr>name = ustr ''Auston Matthews'', goals = 4, assists = 1\<rparr>)]"

definition sample_roster :: "ustring \<rightharpoonup> string" where
  "sample_roster =
     map_of [(ustr ''connor mcdavid'', ''EDM''), (ustr ''leon draisaitl'', ''EDM''),
             (ustr ''sidney crosby'', ''PIT''), (ustr ''auston matthews'', ''TOR''),
             (ustr ''brad marchand'', ''BOS''), (ustr ''troy terry'', ''ANA'')]"

definition sample_state :: main_state where
  "sample_state =
     \<lparr>all_player_stats = sample_stats, player_to_team = sample_roster,
      nhl_team_stats = [], unmatched_players = [], sorted_teams = [], stdout = []\<rparr>"

definition stale_state :: main_state where
  \<comment> \<open>the same two inputs, with other values left in the three result variables
      and earlier output\<close>
  "stale_state =
     sample_state\<lparr>nhl_team_stats := [(''XXX'', new_team_stats)],
       unmatched_players := [\<lparr>name = ustr ''Nobody'', goals = 9, assists = 9\<rparr>],
       sorted_teams := [(''XXX'', new_team_stats)],
       stdout := [''Aggregating points by NHL team...'']\<rparr>"

definition tie_stats :: "(ustring, player_stats) py_dict" where
  \<comment> \<open>two teams with the same points and goals\<close>
  "tie_stats =
     [(ustr ''brad marchand'', \<lparr>name = ustr ''Brad Marchand'', goals = 2, assists = 1\<rparr>),
      (ustr ''troy terry'', \<lparr>name = ustr ''Troy Terry'', goals = 2, assists = 1\<rparr>)]"

definition tie_state :: "(ustring, player_stats) py_dict \<Rightarrow> main_state" where
  "tie_state stats =
     \<lparr>all_player_stats = stats, player_to_team = sample_roster,
      nhl_team_stats = [], unmatched_players = [], sorted_teams = [], stdout = []\<rparr>"

definition EDM_entry :: "string \<times> team_stats" where
  "EDM_entry =
     (''EDM'', \<lparr>team_points = 12, team_goals = 5, team_assists = 7,
        players =
          [\<lparr>name = ustr ''Connor McDavid'', goals = 3, assists = 5, points = 8\<rparr>,
           \<lparr>name = ustr ''Leon Draisaitl'', goals = 2, assists = 2, points = 4\<rparr>]\<rparr>)"

definition PIT_entry :: "string \<times> team_stats" where
  "PIT_entry =
     (''PIT'', \<lparr>team_points = 5, team_goals = 1, team_assists = 4,
        players =
          [\<lparr>name = ustr ''Sidney Crosby'', goals = 1, assists = 4, points = 5\<rparr>]\<rparr>)"

definition TOR_entry :: "string \<times> team_stats" where
  "TOR_entry =
     (''TOR'', \<lparr>team_points = 5, team_goals = 4, team_assists = 1,
        players =
          [\<lparr>name = ustr ''Auston Matthews'', goals = 4, assists = 1, points = 5\<rparr>]\<rparr>)"

definition BOS_entry :: "string \<times> team_stats" where
  "BOS_entry =
     (''BOS'', \<lparr>team_points = 3, team_goals = 2, team_assists = 1,
        players =
          [\<lparr>name = ustr ''Brad Marchand'', goals = 2, assists = 1, points = 3\<rparr>]\<rparr>)"

definition ANA_entry :: "string \<times> team_stats" where
  "ANA_entry =
     (''ANA'', \<lparr>team_points = 3, team_goals = 2, team_assists = 1,
        players =
          [\<lparr>name = ustr ''Troy Terry'', goals = 2, assists = 1, points = 3\<rparr>]\<rparr>)"

definition sample_fetched :: "player list list" where
  \<comment> \<open>two countries; the second list repeats a player of the first under another
      spelling\<close>
  "sample_fetched =
     [[\<lparr>name = leo_dube, goals = 1, assists = 2, points = 3\<rparr>,
       \<lparr>name = ustr ''Connor McDavid'', goals = 3, assists = 5, points = 8\<rparr>],
      [\<lparr>name = ustr ''LEO DUBE'', goals = 2, assists = 0, points = 2\<rparr>]]"

definition sample_merged :: player_stats where
  "sample_merged = \<lparr>name = leo_dube, goals = 3, assists = 2\<rparr>"

section \<open>Splitting and joining\<close>

lemma py_split_all_space:
  assumes "dropWhile py_isspace s = []"
  shows "py_split s = []"
  by (subst py_split.simps) (simp only: assms list.case)

lemma py_split_token:
  assumes "dropWhile py_isspace s = c # r"
  shows "py_split s = takeWhile (\<lambda>d. \<not> py_isspace d) (c # r)
                # py_split (dropWhile (\<lambda>d. \<not> py_isspace d) (c # r))"
  by (subst py_split.simps) (simp only: assms list.case)

lemma py_split_skip:
  assumes "py_isspace w"
  shows "py_split (w # s) = py_split s"
proof -
  have "dropWhile py_isspace (w # s) = dropWhile py_isspace s"
    using assms by simp
  then show ?thesis
    by (subst py_split.simps, subst (2) py_split.simps) (simp only:)
qed

lemma set_takeWhile_sub: "set (takeWhile P xs) \<subseteq> set xs"
  by (induction xs) auto

lemma set_dropWhile_sub: "set (dropWhile P xs) \<subseteq> set xs"
  by (induction xs) auto

lemma takeWhile_all: "\<forall>x\<in>set (takeWhile P xs). P x"
  by (induction xs) auto

lemma hd_dropWhile_space: "dropWhile py_isspace s = c # r \<Longrightarrow> \<not> py_isspace c"
  using hd_dropWhile [of py_isspace s] by force

lemma py_split_tokens:
  "t \<in> set (py_split s) \<Longrightarrow> t \<noteq> [] \<and> (\<forall>c\<in>set t. \<not> py_isspace c) \<and> set t \<subseteq> set s"
proof (induction s arbitrary: t rule: py_split.induct)
  case (1 s)
  show ?case
  proof (cases "dropWhile py_isspace s")
    case Nil
    with "1.prems" py_split_all_space [OF Nil] show ?thesis by simp
  next
    case (Cons c r)
    let ?tok = "takeWhile (\<lambda>d. \<not> py_isspace d) (c # r)"
    let ?rest = "dropWhile (\<lambda>d. \<not> py_isspace d) (c # r)"
    have c: "\<not> py_isspace c" using Cons by (rule hd_dropWhile_space)
    have sub: "set (c # r) \<subseteq> set s"
      using set_dropWhile_sub [of py_isspace s] by (simp only: Cons)
    from "1.prems" have "t \<in> set (?tok # py_split ?rest)"
      by (simp only: py_split_token [OF Cons])
    then have "t = ?tok \<or> t \<in> set (py_split ?rest)"
      by (simp only: set_ConsD list.set insert_iff)
    then show ?thesis
    proof
      assume t: "t = ?tok"
      have "?tok \<noteq> []" using c by simp
      moreover have "\<forall>d\<in>set ?tok. \<not> py_isspace d"
        by (rule takeWhile_all)
      moreover have "set ?tok \<subseteq> set s"
        using set_takeWhile_sub [of "\<lambda>d. \<not> py_isspace d" "c # r"] sub by (rule subset_trans)
      ultimately show ?thesis unfolding t by (intro conjI)
    next
      assume "t \<in> set (py_split ?rest)"
      from "1.IH" [OF Cons this]
      have "t \<noteq> [] \<and> (\<forall>c\<in>set t. \<not> py_isspace c) \<and> set t \<subseteq> set ?rest" .
      moreover have "set ?rest \<subseteq> set s"
        using set_dropWhile_sub [of "\<lambda>d. \<not> py_isspace d" "c # r"] sub by (rule subset_trans)
      ultimately show ?thesis by blast
    qed
  qed
qed

lemma py_split_py_join:
  "\<forall>t\<in>set ts. t \<noteq> [] \<and> (\<forall>c\<in>set t. \<not> py_isspace c) \<Longrightarrow>
   py_split (py_join [32] ts) = ts"
proof (induction "[32 :: nat]" ts rule: py_join.induct)
  case 1
  show ?case by (simp add: py_split_all_space [of "[]"])
next
  case (2 t)
  then obtain c r where t: "t = c # r" by (cases t) auto
  with 2 have ns: "\<forall>d\<in>set (c # r). \<not> py_isspace d" by simp
  then have "dropWhile py_isspace t = c # r" by (simp add: t)
  then have "py_split t = takeWhile (\<lambda>d. \<not> py_isspace d) (c # r)
                # py_split (dropWhile (\<lambda>d. \<not> py_isspace d) (c # r))"
    by (rule py_split_token)
  moreover have "takeWhile (\<lambda>d. \<not> py_isspace d) (c # r) = c # r"
    using ns by (simp add: takeWhile_eq_all_conv)
  moreover have "dropWhile (\<lambda>d. \<not> py_isspace d) (c # r) = []"
    using ns by simp
  ultimately show ?case by (simp add: t py_split_all_space [of "[]"])
next
  case (3 t u ts)
  then obtain c r where t: "t = c # r" by (cases t) auto
  with 3 have ns: "\<forall>d\<in>set (c # r). \<not> py_isspace d" by simp
  have sp: "py_isspace 32" by (simp add: py_isspace_def)
  let ?rest = "py_join [32] (u # ts)"
  have j: "py_join [32] (t # u # ts) = c # (r @ 32 # ?rest)" by (simp add: t)
  have "dropWhile py_isspace (c # (r @ 32 # ?rest)) = c # (r @ 32 # ?rest)"
    using ns by simp
  then have "py_split (c # (r @ 32 # ?rest))
      = takeWhile (\<lambda>d. \<not> py_isspace d) (c # (r @ 32 # ?rest))
        # py_split (dropWhile (\<lambda>d. \<not> py_isspace d) (c # (r @ 32 # ?rest)))"
    by (rule py_split_token)
  moreover have "takeWhile (\<lambda>d. \<not> py_isspace d) ((c # r) @ 32 # ?rest) = c # r"
    using ns sp by (subst takeWhile_append2) auto
  moreover have "dropWhile (\<lambda>d. \<not> py_isspace d) ((c # r) @ 32 # ?rest) = 32 # ?rest"
    using ns sp by (subst dropWhile_append2) auto
  moreover have "py_split (32 # ?rest) = py_split ?rest"
    using sp by (rule py_split_skip)
  moreover have "py_split ?rest = u # ts"
    using 3 by simp
  ultimately show ?case by (simp add: j t)
qed

lemma collapse_idempotent:
  "py_join [32] (py_split (py_join [32] (py_split s))) = py_join [32] (py_split s)"
proof -
  have "\<forall>t\<in>set (py_split s). t \<noteq> [] \<and> (\<forall>c\<in>set t. \<not> py_isspace c)"
    using py_split_tokens by blast
  then have "py_split (py_join [32] (py_split s)) = py_split s"
    by (rule py_split_py_join)
  then show ?thesis by simp
qed

lemma set_py_join: "set (py_join sep ts) \<subseteq> set sep \<union> \<Union> (set ` set ts)"
  by (induction sep ts rule: py_join.induct) auto

lemma set_collapse: "set (py_join [32] (py_split s)) \<subseteq> insert 32 (set s)"
proof -
  have "\<Union> (set ` set (py_split s)) \<subseteq> set s"
    using py_split_tokens by blast
  with set_py_join [of "[32]" "py_split s"] show ?thesis by auto
qed

lemma trim_rstrip: "trim s = rstrip (dropWhile py_isspace s)"
  by (simp add: trim_def rstrip_def)

lemma rstrip_append:
  "rstrip (a @ b) = (if \<forall>c\<in>set b. py_isspace c then rstrip a else a @ rstrip b)"
  by (simp add: rstrip_def dropWhile_append)

lemma rstrip_append_spaces: "\<forall>c\<in>set b. py_isspace c \<Longrightarrow> rstrip (a @ b) = rstrip a"
  by (simp add: rstrip_append)

lemma rstrip_append_other:
  "\<not> (\<forall>c\<in>set b. py_isspace c) \<Longrightarrow> rstrip (a @ b) = a @ rstrip b"
  by (auto simp: rstrip_append)

lemma rstrip_tokenlike:
  assumes "t \<noteq> []" and "\<forall>c\<in>set t. \<not> py_isspace c"
  shows "rstrip t = t"
proof -
  have "rev t \<noteq> []" using assms(1) by simp
  then obtain c r where cr: "rev t = c # r" by (cases "rev t") auto
  then have "c \<in> set t" by (metis list.set_intros(1) set_rev)
  with assms(2) have "\<not> py_isspace c" by blast
  then have "dropWhile py_isspace (rev t) = rev t" by (simp add: cr)
  then show ?thesis by (simp add: rstrip_def)
qed

lemma collapse_runs_token:
  "\<forall>c\<in>set t. \<not> py_isspace c \<Longrightarrow> collapse_runs (t @ y) = t @ collapse_runs y"
proof (induction t)
  case Nil
  show ?case by simp
next
  case (Cons c t)
  show ?case
  proof (cases "t @ y")
    case Nil
    with Cons.prems show ?thesis by simp
  next
    case (Cons d z)
    have "collapse_runs (c # d # z) = c # collapse_runs (d # z)"
      using Cons.prems by simp
    moreover have "collapse_runs (t @ y) = t @ collapse_runs y"
      using Cons.IH Cons.prems by simp
    ultimately show ?thesis using Cons by simp
  qed
qed

lemma collapse_runs_spaces:
  assumes "ws \<noteq> []" and "\<forall>c\<in>set ws. py_isspace c" and "\<not> py_isspace c"
  shows "collapse_runs (ws @ c # y) = 32 # collapse_runs (c # y)"
  using assms
proof (induction ws)
  case Nil
  then show ?case by simp
next
  case (Cons w ws)
  show ?case
  proof (cases ws)
    case Nil
    with Cons.prems show ?thesis by simp
  next
    case (Cons w2 ws2)
    have "collapse_runs (w # w2 # (ws2 @ c # y)) = collapse_runs (w2 # (ws2 @ c # y))"
      using Cons.prems Cons by simp
    moreover have "collapse_runs (ws @ c # y) = 32 # collapse_runs (c # y)"
      using Cons.IH Cons.prems Cons by simp
    ultimately show ?thesis using Cons by simp
  qed
qed

lemma rstrip_Cons:
  assumes "\<not> py_isspace e"
  shows "\<exists>z. rstrip (e # q) = e # z"
proof -
  have "rstrip [e] = [e]"
    using assms rstrip_tokenlike [of "[e]"] by simp
  moreover have "rstrip ([e] @ q) = (if \<forall>c\<in>set q. py_isspace c then rstrip [e] else [e] @ rstrip q)"
    by (rule rstrip_append)
  ultimately show ?thesis by simp
qed

lemma collapse_spec: "py_join [32] (py_split s) = spec_whitespace s"
proof (induction s rule: py_split.induct)
  case (1 s)
  show ?case
  proof (cases "dropWhile py_isspace s")
    case Nil
    have "py_split s = []" by (rule py_split_all_space [OF Nil])
    moreover have "trim s = []" by (simp add: trim_rstrip Nil rstrip_def)
    ultimately show ?thesis by (simp add: spec_whitespace_def)
  next
    case (Cons c r)
    let ?tok = "takeWhile (\<lambda>d. \<not> py_isspace d) (c # r)"
    let ?rest = "dropWhile (\<lambda>d. \<not> py_isspace d) (c # r)"
    have c: "\<not> py_isspace c" using Cons by (rule hd_dropWhile_space)
    have cr: "c # r = ?tok @ ?rest" by simp
    have tok1: "?tok \<noteq> []" using c by simp
    have tok2: "\<forall>d\<in>set ?tok. \<not> py_isspace d" by (rule takeWhile_all)
    have IH: "py_join [32] (py_split ?rest) = spec_whitespace ?rest"
      using "1.IH" [OF Cons] .
    have ps: "py_split s = ?tok # py_split ?rest" by (rule py_split_token [OF Cons])
    have ts: "trim s = rstrip (?tok @ ?rest)"
      using cr by (simp only: trim_rstrip Cons)
    show ?thesis
    proof (cases "dropWhile py_isspace ?rest")
      case Nil
      then have allsp: "\<forall>d\<in>set ?rest. py_isspace d" by (simp only: dropWhile_eq_Nil_conv)
      have "py_split ?rest = []" by (rule py_split_all_space [OF Nil])
      then have J: "py_join [32] (py_split s) = ?tok" by (simp only: ps py_join.simps)
      have "rstrip (?tok @ ?rest) = rstrip ?tok"
        using allsp by (rule rstrip_append_spaces)
      also have "\<dots> = ?tok" using tok1 tok2 by (rule rstrip_tokenlike)
      finally have "trim s = ?tok" by (simp only: ts)
      moreover have "collapse_runs (?tok @ []) = ?tok @ collapse_runs []"
        using tok2 by (rule collapse_runs_token)
      ultimately show ?thesis using J by (simp add: spec_whitespace_def)
    next
      case (Cons e q)
      let ?ws = "takeWhile py_isspace ?rest"
      have e: "\<not> py_isspace e" using Cons by (rule hd_dropWhile_space)
      have dne: "dropWhile py_isspace ?rest \<noteq> []"
        by (simp only: Cons) simp
      then have notall: "\<not> (\<forall>d\<in>set ?rest. py_isspace d)"
        by (simp only: dropWhile_eq_Nil_conv not_False_eq_True)
      have "py_split ?rest = takeWhile (\<lambda>d. \<not> py_isspace d) (e # q)
              # py_split (dropWhile (\<lambda>d. \<not> py_isspace d) (e # q))"
        by (rule py_split_token [OF Cons])
      then obtain t' ts' where "py_split ?rest = t' # ts'" by blast
      then have J: "py_join [32] (py_split s) = ?tok @ 32 # py_join [32] (py_split ?rest)"
        by (simp add: ps)
      have rs: "?rest = ?ws @ (e # q)"
        using takeWhile_dropWhile_id [of py_isspace ?rest] by (simp only: Cons)
      have rne: "?rest \<noteq> []" using dne by (metis dropWhile.simps(1))
      then have "\<not> \<not> py_isspace (hd ?rest)"
        by (rule hd_dropWhile)
      then have ws1: "?ws \<noteq> []"
        using rne by (metis list.sel(1) neq_Nil_conv takeWhile.simps(2))
      have ws2: "\<forall>d\<in>set ?ws. py_isspace d" by (rule takeWhile_all)
      obtain z where z: "rstrip (e # q) = e # z"
        using rstrip_Cons [OF e] by blast
      have tr: "trim ?rest = e # z"
        by (simp only: trim_rstrip Cons z)
      have "rstrip ?rest = rstrip (?ws @ (e # q))"
        using rs by (rule arg_cong)
      also have "\<dots> = ?ws @ rstrip (e # q)"
      proof (rule rstrip_append_other)
        show "\<not> (\<forall>c\<in>set (e # q). py_isspace c)" using e by simp
      qed
      finally have "rstrip ?rest = ?ws @ e # z" by (simp only: z)
      moreover have "rstrip (?tok @ ?rest) = ?tok @ rstrip ?rest"
        using notall by (rule rstrip_append_other)
      ultimately have "trim s = ?tok @ (?ws @ e # z)" by (simp only: ts)
      then have "collapse_runs (trim s) = collapse_runs (?tok @ (?ws @ e # z))"
        by (rule arg_cong)
      also have "\<dots> = ?tok @ collapse_runs (?ws @ e # z)"
        using tok2 by (rule collapse_runs_token)
      also have "collapse_runs (?ws @ e # z) = 32 # collapse_runs (e # z)"
        using ws1 ws2 e by (rule collapse_runs_spaces)
      finally have "collapse_runs (trim s) = ?tok @ 32 # collapse_runs (trim ?rest)"
        by (simp only: tr)
      then show ?thesis
        using J IH by (simp only: spec_whitespace_def)
    qed
  qed
qed

section \<open>Dictionaries and the two loops\<close>

lemma map_of_dict_set: "map_of (dict_set d k v) = (map_of d)(k \<mapsto> v)"
  by (induction d) (auto simp: fun_eq_iff)

lemma dict_get_dict_set:
  "dict_get (dict_set d k v) k' = (if k' = k then Some v else dict_get d k')"
  by (simp add: dict_get_def map_of_dict_set)

lemma keys_dict_set:
  "map fst (dict_set d k v) = (if k \<in> set (map fst d) then map fst d else map fst d @ [k])"
proof (induction d)
  case Nil
  show ?case by simp
next
  case (Cons x d)
  then show ?case by (cases x) force
qed

lemma distinct_dict_set:
  "distinct (map fst d) \<Longrightarrow> distinct (map fst (dict_set d k v))"
  by (simp add: keys_dict_set)

lemma set_dict_set: "set (dict_set d k v) \<subseteq> insert (k, v) (set d)"
  by (induction d) (auto split: if_splits)

lemma dict_get_None_iff: "dict_get d k = None \<longleftrightarrow> k \<notin> set (map fst d)"
  by (simp add: dict_get_def map_of_eq_None_iff)

lemma dict_get_in_set: "dict_get d k = Some v \<Longrightarrow> (k, v) \<in> set d"
  by (simp add: dict_get_def map_of_SomeD)

lemma all_players_dict_set:
  assumes "distinct (map fst d)"
  shows "mset (all_team_players (dict_set d k v)) + mset (team_players d k)
         = mset (all_team_players d) + mset (players v)"
  using assms
proof (induction d)
  case Nil
  then show ?case by (simp add: all_team_players_def team_players_def dict_get_def)
next
  case (Cons x d)
  obtain k' v' where x: "x = (k', v')" by (cases x)
  show ?case
  proof (cases "k' = k")
    case True
    with Cons.prems x show ?thesis
      by (simp add: all_team_players_def team_players_def dict_get_def)
  next
    case False
    have "mset (all_team_players (dict_set d k v)) + mset (team_players d k)
          = mset (all_team_players d) + mset (players v)"
      using Cons by simp
    with False x show ?thesis
      by (simp add: all_team_players_def team_players_def dict_get_def)
  qed
qed

lemma aggregate_player_eq:
  "aggregate_player r (T, um) (k, s) =
     (case matched_team r k of
        Some t \<Rightarrow> (add_to_team T t s, um)
      | None \<Rightarrow> (T, um @ [s]))"
  by (simp add: aggregate_player_def matched_team_def split: option.splits)

lemma team_players_add_to_team:
  "team_players (add_to_team T t s) t' =
     (if t' = t then team_players T t @ [with_points s] else team_players T t')"
  by (simp add: add_to_team_def team_players_def team_entry_def dict_get_dict_set
      new_team_stats_def with_points_def Let_def split: option.splits)

lemma distinct_add_to_team:
  "distinct (map fst T) \<Longrightarrow> distinct (map fst (add_to_team T t s))"
  by (simp add: add_to_team_def Let_def distinct_dict_set)

lemma all_players_add_to_team:
  assumes "distinct (map fst T)"
  shows "mset (all_team_players (add_to_team T t s))
         = mset (all_team_players T) + {#with_points s#}"
proof -
  let ?v = "\<lparr>team_points = team_points (team_entry T t) + (goals s + assists s),
            team_goals = team_goals (team_entry T t) + goals s,
            team_assists = team_assists (team_entry T t) + assists s,
            players = players (team_entry T t) @ [with_points s]\<rparr>"
  have eq: "add_to_team T t s = dict_set T t ?v"
    by (simp add: add_to_team_def Let_def with_points_def)
  have tp: "team_players T t = players (team_entry T t)"
    by (simp add: team_players_def team_entry_def new_team_stats_def split: option.splits)
  have "mset (all_team_players (dict_set T t ?v)) + mset (team_players T t)
        = mset (all_team_players T) + mset (players ?v)"
    using assms by (rule all_players_dict_set)
  then show ?thesis
    by (simp add: eq tp)
qed

lemma sums_agree_add_to_team:
  assumes "\<forall>x\<in>set T. sums_agree (snd x)"
  shows "\<forall>x\<in>set (add_to_team T t s). sums_agree (snd x)"
proof -
  have old: "sums_agree (team_entry T t)"
  proof (cases "dict_get T t")
    case None
    then show ?thesis by (simp add: team_entry_def new_team_stats_def sums_agree_def)
  next
    case (Some a)
    then have "(t, a) \<in> set T" by (rule dict_get_in_set)
    with assms have "sums_agree a" by force
    with Some show ?thesis by (simp add: team_entry_def)
  qed
  let ?v = "\<lparr>team_points = team_points (team_entry T t) + (goals s + assists s),
            team_goals = team_goals (team_entry T t) + goals s,
            team_assists = team_assists (team_entry T t) + assists s,
            players = players (team_entry T t) @ [with_points s]\<rparr>"
  have eq: "add_to_team T t s = dict_set T t ?v"
    by (simp add: add_to_team_def Let_def with_points_def)
  have new: "sums_agree ?v"
    using old by (simp add: sums_agree_def with_points_def)
  show ?thesis
  proof
    fix x assume "x \<in> set (add_to_team T t s)"
    then have "x \<in> insert (t, ?v) (set T)"
      using set_dict_set [of T t ?v] eq by auto
    with new assms show "sums_agree (snd x)" by auto
  qed
qed

lemma keys_add_to_team:
  "map fst (add_to_team T t s) = (if t \<in> set (map fst T) then map fst T else map fst T @ [t])"
  by (simp add: add_to_team_def Let_def keys_dict_set)

text \<open>the loop, from any intermediate state\<close>

lemma loop_unmatched:
  "snd (foldl (aggregate_player r) (T, um) items)
   = um @ map snd (filter (\<lambda>x. matched_team r (fst x) = None) items)"
proof (induction items arbitrary: T um)
  case Nil
  show ?case by simp
next
  case (Cons x items)
  obtain k s where x: "x = (k, s)" by (cases x)
  show ?case
    by (cases "matched_team r k") (simp_all add: x aggregate_player_eq Cons.IH)
qed

lemma loop_team_players:
  "team_players (fst (foldl (aggregate_player r) (T, um) items)) t
   = team_players T t
     @ map (\<lambda>x. with_points (snd x)) (filter (\<lambda>x. matched_team r (fst x) = Some t) items)"
proof (induction items arbitrary: T um)
  case Nil
  show ?case by simp
next
  case (Cons x items)
  obtain k s where x: "x = (k, s)" by (cases x)
  show ?case
    by (cases "matched_team r k")
       (simp_all add: x aggregate_player_eq Cons.IH team_players_add_to_team)
qed

lemma loop_distinct:
  "distinct (map fst T) \<Longrightarrow>
   distinct (map fst (fst (foldl (aggregate_player r) (T, um) items)))"
proof (induction items arbitrary: T um)
  case Nil
  then show ?case by simp
next
  case (Cons x items)
  obtain k s where x: "x = (k, s)" by (cases x)
  show ?case
    by (cases "matched_team r k")
       (simp_all add: x aggregate_player_eq Cons.IH Cons.prems distinct_add_to_team)
qed

lemma loop_all_players:
  "distinct (map fst T) \<Longrightarrow>
   mset (all_team_players (fst (foldl (aggregate_player r) (T, um) items)))
   = mset (all_team_players T)
     + mset (map (\<lambda>x. with_points (snd x))
         (filter (\<lambda>x. matched_team r (fst x) \<noteq> None) items))"
proof (induction items arbitrary: T um)
  case Nil
  then show ?case by simp
next
  case (Cons x items)
  obtain k s where x: "x = (k, s)" by (cases x)
  show ?case
  proof (cases "matched_team r k")
    case None
    then show ?thesis
      by (simp add: x aggregate_player_eq Cons.IH Cons.prems)
  next
    case (Some t)
    have d: "distinct (map fst (add_to_team T t s))"
      using Cons.prems by (rule distinct_add_to_team)
    show ?thesis
      using Some
      by (simp add: x aggregate_player_eq Cons.IH [OF d] all_players_add_to_team [OF Cons.prems])
  qed
qed

lemma loop_sums_agree:
  "\<forall>x\<in>set T. sums_agree (snd x) \<Longrightarrow>
   \<forall>x\<in>set (fst (foldl (aggregate_player r) (T, um) items)). sums_agree (snd x)"
proof (induction items arbitrary: T um)
  case Nil
  then show ?case by simp
next
  case (Cons x items)
  obtain k s where x: "x = (k, s)" by (cases x)
  show ?case
  proof (cases "matched_team r k")
    case None
    then show ?thesis
      using Cons.IH [OF Cons.prems] by (simp add: x aggregate_player_eq)
  next
    case (Some t)
    have "\<forall>x\<in>set (add_to_team T t s). sums_agree (snd x)"
      using Cons.prems by (rule sums_agree_add_to_team)
    from Cons.IH [OF this] Some show ?thesis
      by (simp add: x aggregate_player_eq)
  qed
qed

lemma filter_filter_neq:
  "t \<in> K \<Longrightarrow> filter (\<lambda>y. y \<notin> K) (filter (\<lambda>y. y \<noteq> t) ys) = filter (\<lambda>y. y \<notin> K) ys"
  by (induction ys) auto

lemma loop_keys:
  "map fst (fst (foldl (aggregate_player r) (T, um) items))
   = map fst T
     @ filter (\<lambda>t. t \<notin> set (map fst T)) (first_occurrences (matched_teams r items))"
proof (induction items arbitrary: T um)
  case Nil
  show ?case by (simp add: matched_teams_def map_filter_simps)
next
  case (Cons x items)
  obtain k s where x: "x = (k, s)" by (cases x)
  show ?case
  proof (cases "matched_team r k")
    case None
    then show ?thesis
      by (simp add: x aggregate_player_eq Cons.IH matched_teams_def map_filter_simps)
  next
    case (Some t)
    have mt: "matched_teams r ((k, s) # items) = t # matched_teams r items"
      using Some by (simp add: matched_teams_def map_filter_simps)
    show ?thesis
    proof (cases "t \<in> set (map fst T)")
      case True
      then show ?thesis
        using Some filter_filter_neq [of t "set (map fst T)"]
        by (simp add: x aggregate_player_eq Cons.IH keys_add_to_team mt del: set_map)
    next
      case False
      have "filter (\<lambda>y. y \<notin> set (map fst T) \<and> y \<noteq> t) (first_occurrences (matched_teams r items))
            = filter (\<lambda>y. y \<notin> set (map fst T)) (filter (\<lambda>y. y \<noteq> t) (first_occurrences (matched_teams r items)))"
        by (simp add: conj_commute)
      with False show ?thesis
        using Some
        by (simp add: x aggregate_player_eq Cons.IH keys_add_to_team mt del: set_map)
    qed
  qed
qed

lemma dict_get_merge_player:
  "dict_get (merge_player U d p) k =
     (if normalize_name U (name p) = k then merge_entry (dict_get d k) p else dict_get d k)"
  by (auto simp: merge_player_def merge_entry_def Let_def dict_get_dict_set split: option.splits)

lemma dict_get_merge_players:
  "dict_get (foldl (merge_player U) d ps) k
   = foldl merge_entry (dict_get d k) (filter (\<lambda>p. normalize_name U (name p) = k) ps)"
  by (induction ps arbitrary: d) (simp_all add: dict_get_merge_player)

lemma foldl_foldl_concat:
  "foldl (\<lambda>a xs. foldl f a xs) a xss = foldl f a (concat xss)"
  by (induction xss arbitrary: a) simp_all

lemma dict_get_collect:
  "dict_get (collect_player_stats U fetched) k
   = foldl merge_entry None (filter (\<lambda>p. normalize_name U (name p) = k) (concat fetched))"
proof -
  have "dict_get ([] :: (ustring, player_stats) py_dict) k = None"
    by (simp add: dict_get_def)
  then show ?thesis
    by (simp add: collect_player_stats_def foldl_foldl_concat dict_get_merge_players)
qed

lemma merge_entries_Some:
  "\<exists>e'. foldl merge_entry (Some e) ps = Some e' \<and> name e' = name e \<and>
     goals e' = goals e + (\<Sum>p\<leftarrow>ps. goals p) \<and>
     assists e' = assists e + (\<Sum>p\<leftarrow>ps. assists p)"
proof (induction ps arbitrary: e)
  case Nil
  show ?case by simp
next
  case (Cons p ps)
  let ?e = "e\<lparr>goals := goals e + goals p, assists := assists e + assists p\<rparr>"
  from Cons.IH [of ?e] show ?case
    by (auto simp: merge_entry_def)
qed

lemma merge_entries_None:
  "foldl merge_entry None ps =
     (case ps of [] \<Rightarrow> None
      | p # qs \<Rightarrow> Some \<lparr>name = name p, goals = (\<Sum>q\<leftarrow>p # qs. goals q),
                        assists = (\<Sum>q\<leftarrow>p # qs. assists q)\<rparr>)"
proof (cases ps)
  case Nil
  then show ?thesis by simp
next
  case (Cons p qs)
  let ?e = "\<lparr>name = name p, goals = goals p, assists = assists p\<rparr>"
  obtain e' where "foldl merge_entry (Some ?e) qs = Some e'" "name e' = name ?e"
    "goals e' = goals ?e + (\<Sum>q\<leftarrow>qs. goals q)" "assists e' = assists ?e + (\<Sum>q\<leftarrow>qs. assists q)"
    using merge_entries_Some [of ?e qs] by blast
  then show ?thesis
    using Cons by (simp add: merge_entry_def)
qed

lemma collect_distinct_aux:
  "distinct (map fst d) \<Longrightarrow> distinct (map fst (foldl (merge_player U) d ps))"
proof (induction ps arbitrary: d)
  case Nil
  then show ?case by simp
next
  case (Cons p ps)
  have "distinct (map fst (merge_player U d p))"
    using Cons.prems
    by (simp add: merge_player_def Let_def distinct_dict_set split: option.splits)
  then show ?case using Cons.IH by simp
qed

lemma collect_distinct: "distinct (map fst (collect_player_stats U fetched))"
  by (simp add: collect_player_stats_def foldl_foldl_concat collect_distinct_aux)

lemma loop_on_state:
  "foldl aggregate_item s items
   = s\<lparr>nhl_team_stats :=
         fst (foldl (aggregate_player (player_to_team s))
                (nhl_team_stats s, unmatched_players s) items),
       unmatched_players :=
         snd (foldl (aggregate_player (player_to_team s))
                (nhl_team_stats s, unmatched_players s) items)\<rparr>"
proof (induction items arbitrary: s)
  case Nil
  show ?case by simp
next
  case (Cons x items)
  obtain t u where tu:
    "aggregate_player (player_to_team s) (nhl_team_stats s, unmatched_players s) x = (t, u)"
    by (cases "aggregate_player (player_to_team s) (nhl_team_stats s, unmatched_players s) x")
  have step: "aggregate_item s x = s\<lparr>nhl_team_stats := t, unmatched_players := u\<rparr>"
    by (simp add: aggregate_item_def tu)
  show ?case
    by (simp add: step tu Cons.IH)
qed

lemma aggregation_loop:
  "foldl aggregate_item (s\<lparr>nhl_team_stats := [], unmatched_players := []\<rparr>) (all_player_stats s)
   = s\<lparr>nhl_team_stats := fst (aggregate_by_team (all_player_stats s) (player_to_team s)),
       unmatched_players := snd (aggregate_by_team (all_player_stats s) (player_to_team s))\<rparr>"
  by (simp add: loop_on_state aggregate_by_team_def)

lemma aggregation_fields:
  "nhl_team_stats (aggregation s) = fst (aggregate_by_team (all_player_stats s) (player_to_team s))"
  "unmatched_players (aggregation s) = snd (aggregate_by_team (all_player_stats s) (player_to_team s))"
  "sorted_teams (aggregation s) = sort_teams (fst (aggregate_by_team (all_player_stats s) (player_to_team s)))"
  "all_player_stats (aggregation s) = all_player_stats s"
  "player_to_team (aggregation s) = player_to_team s"
  by (simp_all add: aggregation_def Let_def py_print_def aggregation_loop)

lemma aggregation_stdout:
  "stdout (aggregation s) = stdout s @ header_lines"
  by (simp add: aggregation_def Let_def py_print_def aggregation_loop header_lines_def)

lemma without_with_points: "without_points (with_points x) = x"
  by (simp add: without_points_def with_points_def)

lemma py_sorted_reverse_stable:
  "filter (\<lambda>x. f x = k) (py_sorted_reverse f xs) = filter (\<lambda>x. f x = k) xs"
  by (simp add: py_sorted_reverse_def rev_filter [symmetric] sort_key_stable)

lemma py_sorted_reverse_mset: "mset (py_sorted_reverse f xs) = mset xs"
  by (simp add: py_sorted_reverse_def)

lemma py_sorted_reverse_set: "set (py_sorted_reverse f xs) = set xs"
  by (simp add: py_sorted_reverse_def)

lemma py_sorted_reverse_sorted: "sorted (rev (map f (py_sorted_reverse f xs)))"
  by (simp add: py_sorted_reverse_def rev_map sorted_sort_key)

section \<open>Facts of the Unicode excerpt\<close>

lemma range_lookup_cases:
  "range_lookup rs d c = d \<or> (\<exists>lo hi. (lo, hi, range_lookup rs d c) \<in> set rs \<and> lo \<le> c \<and> c \<le> hi)"
proof (induction rs)
  case Nil
  show ?case by simp
next
  case (Cons x rs)
  obtain lo hi v where x: "x = (lo, hi, v)" by (cases x)
  show ?case using Cons by (auto simp: x)
qed

lemma range_lookup_miss:
  "\<forall>x\<in>set rs. c < fst x \<or> fst (snd x) < c \<Longrightarrow> range_lookup rs d c = d"
  by (induction rs) auto

lemma ucd_category_Mn: "ucd_category c = ''Mn'' \<longleftrightarrow> 768 \<le> c \<and> c \<le> 879"
proof
  assume h: "ucd_category c = ''Mn''"
  from range_lookup_cases [of ucd_category_ranges "''Cn''" c]
  have "\<exists>lo hi. (lo, hi, ''Mn'') \<in> set ucd_category_ranges \<and> lo \<le> c \<and> c \<le> hi"
    using h by (simp add: ucd_category_def)
  then show "768 \<le> c \<and> c \<le> 879"
    by (simp add: ucd_category_ranges_def)
next
  assume "768 \<le> c \<and> c \<le> 879"
  then show "ucd_category c = ''Mn''"
    by (simp add: ucd_category_def ucd_category_ranges_def)
qed

lemma ucd_combining_low: "c < 768 \<Longrightarrow> ucd_combining c = 0"
  unfolding ucd_combining_def
  by (rule range_lookup_miss) (simp add: ucd_combining_ranges_def)

lemma ucd_decomposition_low: "c < 192 \<Longrightarrow> ucd_decomposition c = [c]"
proof -
  assume h: "c < 192"
  have "c \<notin> fst ` set ucd_decomposition_table"
    using h by (auto simp: ucd_decomposition_table_def)
  then have "map_of ucd_decomposition_table c = None"
    by (simp add: map_of_eq_None_iff)
  then show ?thesis by (simp add: ucd_decomposition_def)
qed

lemma normalize_name_ascii:
  assumes "ascii_services U" and "\<forall>c\<in>set s. c < 128"
  shows "normalize_name U s = py_join [32] (py_split (map ascii_lower s))"
proof -
  have n: "normalize_NFD U s = s" and l: "lower U s = map ascii_lower s"
    using assms by (simp_all add: ascii_services_def)
  have "\<forall>c\<in>set s. category U c \<noteq> ''Mn''"
    using assms by (simp add: ascii_services_def)
  then have "filter (\<lambda>char. category U char \<noteq> ''Mn'') s = s"
    by (simp only: filter_True)
  then show ?thesis
    by (simp add: normalize_name_def n l)
qed

lemma decompose_low: "\<forall>c\<in>set s. c < 192 \<Longrightarrow> concat (map ucd_decomposition s) = s"
  by (induction s) (simp_all add: ucd_decomposition_low)

lemma canonical_order_starters: "\<forall>c\<in>set s. ccc c = 0 \<Longrightarrow> canonical_order ccc s = s"
  by (induction s) simp_all

lemma ucd_normalize_NFD_low: "\<forall>c\<in>set s. c < 192 \<Longrightarrow> ucd_normalize_NFD s = s"
proof -
  assume h: "\<forall>c\<in>set s. c < 192"
  have "ucd_combining c = 0" if "c \<in> set s" for c
  proof -
    from h that have "c < 768" by force
    then show ?thesis by (rule ucd_combining_low)
  qed
  then have "\<forall>c\<in>set s. ucd_combining c = 0" by blast
  then have "canonical_order ucd_combining s = s"
    by (rule canonical_order_starters)
  then show ?thesis
    using h by (simp add: ucd_normalize_NFD_def decompose_low)
qed

lemma ucd_tolower_ascii: "c < 128 \<Longrightarrow> ucd_tolower c = ascii_lower c"
  by (simp add: ucd_tolower_def ascii_lower_def)

lemma ucd_ascii_services: "ascii_services ucd"
proof -
  have "normalize_NFD ucd s = s \<and> lower ucd s = map ascii_lower s" if h: "\<forall>c\<in>set s. c < 128" for s
  proof
    from h have "\<forall>c\<in>set s. c < 192" by auto
    then show "normalize_NFD ucd s = s"
      by (simp add: ucd_def ucd_normalize_NFD_low)
    show "lower ucd s = map ascii_lower s"
      using h by (simp add: ucd_def ucd_lower_def ucd_tolower_ascii)
  qed
  moreover have "category ucd c \<noteq> ''Mn''" if "c < 128" for c
    using that by (simp add: ucd_def ucd_category_Mn)
  ultimately show ?thesis
    unfolding ascii_services_def by blast
qed

section \<open>Keys of sample names\<close>

lemma ucd_decomposition_high: "836 < c \<Longrightarrow> ucd_decomposition c = [c]"
proof -
  assume h: "836 < c"
  have "c \<notin> fst ` set ucd_decomposition_table"
    using h by (auto simp: ucd_decomposition_table_def)
  then have "map_of ucd_decomposition_table c = None"
    by (simp add: map_of_eq_None_iff)
  then show ?thesis by (simp add: ucd_decomposition_def)
qed

lemma ucd_decomposition_233: "ucd_decomposition 233 = [101, 769]"
  by (simp add: ucd_decomposition_def ucd_decomposition_table_def)

lemma ucd_combining_769: "ucd_combining 769 = 230"
  by (simp add: ucd_combining_def ucd_combining_ranges_def)

lemma ucd_combining_847: "ucd_combining 847 = 0"
  by (simp add: ucd_combining_def ucd_combining_ranges_def)

lemma ucd_combining_8413: "ucd_combining 8413 = 0"
  by (simp add: ucd_combining_def ucd_combining_ranges_def)

lemma ucd_combining_12334: "ucd_combining 12334 = 224"
  by (simp add: ucd_combining_def ucd_combining_ranges_def)

lemma ucd_combining_119141: "ucd_combining 119141 = 216"
  by (simp add: ucd_combining_def ucd_combining_ranges_def)

lemma ucd_category_8413: "ucd_category 8413 = ''Me''"
  by (simp add: ucd_category_def ucd_category_ranges_def)

lemma ucd_category_97: "ucd_category 97 = ''Ll''"
  by (simp add: ucd_category_def ucd_category_ranges_def)

lemmas ucd_eval = ucd_def ucd_normalize_NFD_def ucd_lower_def ucd_tolower_def
  ucd_category_Mn ucd_decomposition_low ucd_decomposition_high ucd_decomposition_233
  ucd_combining_low ucd_combining_769 ucd_combining_847 ucd_combining_8413
  ucd_combining_12334 ucd_combining_119141

lemma key_leo_dube: "normalize_name ucd leo_dube = ustr ''leo dube''"
  by (simp add: leo_dube_def normalize_name_def ucd_eval py_split.simps py_isspace_def ustr_def)

lemma key_circled_a: "normalize_name ucd circled_a = circled_a"
  by (simp add: circled_a_def normalize_name_def ucd_eval py_split.simps py_isspace_def)

lemma spec_circled_a: "spec_normalize is_combining_mark ucd circled_a = [97]"
  by (simp add: circled_a_def spec_normalize_def is_combining_mark_def spec_whitespace_def
      trim_def ucd_eval ucd_category_8413 ucd_category_97 py_isspace_def)

lemma key_tone_marks: "normalize_name ucd tone_marks = [97, 12334, 119141]"
  by (simp add: tone_marks_def normalize_name_def ucd_eval py_split.simps py_isspace_def)

lemma key_key_tone_marks: "normalize_name ucd [97, 12334, 119141] = [97, 119141, 12334]"
  by (simp add: normalize_name_def ucd_eval py_split.simps py_isspace_def)

lemma key_LEO_DUBE: "normalize_name ucd (ustr ''LEO DUBE'') = ustr ''leo dube''"
  by (subst normalize_name_ascii [OF ucd_ascii_services])
     (simp_all add: ustr_def ascii_lower_def py_split.simps py_isspace_def)

lemma key_leo_spaces: "normalize_name ucd (ustr ''leo   dube'') = ustr ''leo dube''"
  by (subst normalize_name_ascii [OF ucd_ascii_services])
     (simp_all add: ustr_def ascii_lower_def py_split.simps py_isspace_def)

section \<open>The sample inputs, run\<close>

lemmas run_defs =
  aggregation_fields aggregate_by_team_def aggregate_player_def add_to_team_def team_entry_def
  dict_get_def new_team_stats_def sort_teams_def py_sorted_reverse_def rank_key_def

lemmas sample_defs =
  sample_state_def stale_state_def sample_stats_def sample_roster_def tie_state_def
  tie_stats_def EDM_entry_def PIT_entry_def TOR_entry_def BOS_entry_def ANA_entry_def ustr_def

lemma sample_teams:
  "nhl_team_stats (aggregation sample_state) = [EDM_entry, PIT_entry, TOR_entry]"
  by (simp add: sample_defs run_defs)

lemma sample_unmatched:
  "unmatched_players (aggregation sample_state)
   = [\<lparr>name = ustr ''Jane Doe'', goals = 1, assists = 0\<rparr>]"
  by (simp add: sample_defs run_defs)

lemma sample_ranking:
  "sorted_teams (aggregation sample_state) = [EDM_entry, TOR_entry, PIT_entry]"
  by (simp add: sample_defs run_defs)

lemma stale_ranking:
  "sorted_teams (aggregation stale_state) = [EDM_entry, TOR_entry, PIT_entry]"
  by (simp add: sample_defs run_defs)

lemma stale_unmatched:
  "unmatched_players (aggregation stale_state)
   = [\<lparr>name = ustr ''Jane Doe'', goals = 1, assists = 0\<rparr>]"
  by (simp add: sample_defs run_defs)

lemma tie_teams:
  "nhl_team_stats (aggregation (tie_state tie_stats)) = [BOS_entry, ANA_entry]"
  by (simp add: sample_defs run_defs)

lemma tie_ranking:
  "sorted_teams (aggregation (tie_state tie_stats)) = [BOS_entry, ANA_entry]"
  by (simp add: sample_defs run_defs)

lemma tie_ranking_rev:
  "sorted_teams (aggregation (tie_state (rev tie_stats))) = [ANA_entry, BOS_entry]"
  by (simp add: sample_defs run_defs)

section \<open>The aggregation step\<close>

lemma mset_map_filter_partition:
  "mset (map f (filter P xs)) + mset (map f (filter (\<lambda>x. \<not> P x) xs)) = mset (map f xs)"
  by (induction xs) simp_all

text \<open>
  C1. Every player record of the source statistics ends up in exactly one of the two
  outputs. Counted with multiplicity, the records in the player lists of all teams
  together with the unmatched records are the records of the input: none is dropped,
  none is filed twice. No team has two entries; the player list of a team holds, in the
  order of the iteration, the records whose key the roster maps to that team, and the
  unmatched sequence holds the others.
\<close>

theorem every_record_classified:
  "mset (map without_points (all_team_players (nhl_team_stats (aggregation s))))
     + mset (unmatched_players (aggregation s))
   = mset (map snd (all_player_stats s))
   \<and> distinct (map fst (nhl_team_stats (aggregation s)))
   \<and> team_players (nhl_team_stats (aggregation s)) t
     = map (\<lambda>x. with_points (snd x))
         (filter (\<lambda>x. matched_team (player_to_team s) (fst x) = Some t) (all_player_stats s))
   \<and> unmatched_players (aggregation s)
     = map snd (filter (\<lambda>x. matched_team (player_to_team s) (fst x) = None) (all_player_stats s))"
proof -
  let ?items = "all_player_stats s" and ?r = "player_to_team s"
  let ?T = "fst (foldl (aggregate_player ?r) ([], []) ?items)"
  let ?um = "snd (foldl (aggregate_player ?r) ([], []) ?items)"
  have d0: "distinct (map fst ([] :: (string, team_stats) py_dict))" by simp
  have um: "?um = map snd (filter (\<lambda>x. matched_team ?r (fst x) = None) ?items)"
    by (simp add: loop_unmatched)
  have e: "team_players [] t = []"
    by (simp add: team_players_def dict_get_def)
  have tp: "team_players ?T t
            = map (\<lambda>x. with_points (snd x)) (filter (\<lambda>x. matched_team ?r (fst x) = Some t) ?items)"
    by (simp add: loop_team_players e)
  have di: "distinct (map fst ?T)"
    using d0 by (rule loop_distinct)
  have "mset (all_team_players ?T)
        = mset (map (\<lambda>x. with_points (snd x)) (filter (\<lambda>x. matched_team ?r (fst x) \<noteq> None) ?items))"
    using loop_all_players [OF d0, of ?r "[]" ?items] by (simp add: all_team_players_def)
  then have "image_mset without_points (mset (all_team_players ?T))
        = image_mset without_points (image_mset (\<lambda>x. with_points (snd x))
            (mset (filter (\<lambda>x. matched_team ?r (fst x) \<noteq> None) ?items)))"
    by simp
  then have "mset (map without_points (all_team_players ?T))
        = mset (map snd (filter (\<lambda>x. matched_team ?r (fst x) \<noteq> None) ?items))"
    by (simp add: multiset.map_comp o_def without_with_points)
  then have "mset (map without_points (all_team_players ?T)) + mset ?um
        = mset (map snd (filter (\<lambda>x. matched_team ?r (fst x) \<noteq> None) ?items))
          + mset (map snd (filter (\<lambda>x. \<not> matched_team ?r (fst x) \<noteq> None) ?items))"
    by (simp add: um)
  also have "\<dots> = mset (map snd ?items)"
    by (rule mset_map_filter_partition)
  finally have "mset (map without_points (all_team_players ?T)) + mset ?um
        = mset (map snd ?items)" .
  with um tp di show ?thesis
    unfolding aggregation_fields aggregate_by_team_def by (intro conjI)
qed

theorem every_record_classified_witness:
  "mset (map without_points (all_team_players [EDM_entry, PIT_entry, TOR_entry]))
     + mset [\<lparr>name = ustr ''Jane Doe'', goals = 1, assists = 0\<rparr>]
   = mset (map snd sample_stats)
   \<and> team_players [EDM_entry, PIT_entry, TOR_entry] ''EDM''
     = [with_points (snd (sample_stats ! 0)), with_points (snd (sample_stats ! 3))]"
proof -
  have s: "all_player_stats sample_state = sample_stats"
    by (simp add: sample_state_def)
  have f: "filter (\<lambda>x. matched_team (player_to_team sample_state) (fst x) = Some ''EDM'') sample_stats
           = [sample_stats ! 0, sample_stats ! 3]"
    by (simp add: sample_defs matched_team_def)
  note c = every_record_classified [of sample_state "''EDM''",
      unfolded sample_teams sample_unmatched s f]
  from c [THEN conjunct1] c [THEN conjunct2, THEN conjunct2, THEN conjunct1]
  show ?thesis by simp
qed

text \<open>
  C2. In every team entry produced by the aggregation step, points is the sum of
  goals + assists over the entry's player list, goals the sum of their goals, and
  assists the sum of their assists.
\<close>

theorem franchise_totals_are_sums:
  assumes "(t, a) \<in> set (sorted_teams (aggregation s))"
  shows "team_points a = (\<Sum>p\<leftarrow>players a. goals p + assists p)
       \<and> team_goals a = (\<Sum>p\<leftarrow>players a. goals p)
       \<and> team_assists a = (\<Sum>p\<leftarrow>players a. assists p)"
proof -
  let ?T = "fst (foldl (aggregate_player (player_to_team s)) ([], []) (all_player_stats s))"
  have "\<forall>x\<in>set ([] :: (string, team_stats) py_dict). sums_agree (snd x)" by simp
  then have "\<forall>x\<in>set ?T. sums_agree (snd x)"
    by (rule loop_sums_agree)
  moreover have "(t, a) \<in> set ?T"
    using assms
    by (simp add: aggregation_fields aggregate_by_team_def sort_teams_def py_sorted_reverse_set)
  ultimately have "sums_agree a" by force
  then show ?thesis by (simp add: sums_agree_def)
qed

theorem franchise_totals_are_sums_witness:
  "EDM_entry \<in> set (sorted_teams (aggregation sample_state))
   \<and> team_points (snd EDM_entry) = (\<Sum>p\<leftarrow>players (snd EDM_entry). goals p + assists p)
   \<and> team_goals (snd EDM_entry) = (\<Sum>p\<leftarrow>players (snd EDM_entry). goals p)
   \<and> team_assists (snd EDM_entry) = (\<Sum>p\<leftarrow>players (snd EDM_entry). assists p)
   \<and> team_points (snd EDM_entry) = 12"
proof -
  have h: "(''EDM'', snd EDM_entry) \<in> set (sorted_teams (aggregation sample_state))"
    by (simp add: sample_ranking) (simp add: EDM_entry_def)
  have e: "(''EDM'', snd EDM_entry) = EDM_entry"
    by (simp add: EDM_entry_def)
  have p: "team_points (snd EDM_entry) = 12"
    by (simp add: EDM_entry_def)
  show ?thesis
    using h franchise_totals_are_sums [OF h] e p by simp
qed

text \<open>
  C3. The ranked sequence is sorted non-increasing by (points, goals): of two adjacent
  entries the later one has fewer points than the earlier one, or the same points and
  at most as many goals.
\<close>

theorem ranking_sorted:
  assumes "Suc i < length (sorted_teams (aggregation s))"
  shows "team_points (snd (sorted_teams (aggregation s) ! Suc i))
           < team_points (snd (sorted_teams (aggregation s) ! i))
       \<or> team_points (snd (sorted_teams (aggregation s) ! Suc i))
           = team_points (snd (sorted_teams (aggregation s) ! i))
         \<and> team_goals (snd (sorted_teams (aggregation s) ! Suc i))
           \<le> team_goals (snd (sorted_teams (aggregation s) ! i))"
proof -
  let ?R = "sorted_teams (aggregation s)"
  obtain T where R: "?R = py_sorted_reverse rank_key T"
    by (simp add: aggregation_fields sort_teams_def)
  have "sorted (rev (map rank_key ?R))"
    unfolding R by (rule py_sorted_reverse_sorted)
  moreover have "Suc i < length (map rank_key ?R)"
    using assms by simp
  ultimately have "map rank_key ?R ! Suc i \<le> map rank_key ?R ! i"
    by (simp only: sorted_rev_iff_nth_Suc)
  then have "rank_key (?R ! Suc i) \<le> rank_key (?R ! i)"
    using assms by simp
  then show ?thesis
    by (auto simp: rank_key_def less_eq_prod_def)
qed

theorem ranking_sorted_witness:
  "Suc 1 < length (sorted_teams (aggregation sample_state))
   \<and> sorted_teams (aggregation sample_state) ! 1 = TOR_entry
   \<and> sorted_teams (aggregation sample_state) ! Suc 1 = PIT_entry
   \<and> team_points (snd PIT_entry) = team_points (snd TOR_entry)
   \<and> team_goals (snd PIT_entry) \<le> team_goals (snd TOR_entry)"
proof -
  have h: "Suc 1 < length (sorted_teams (aggregation sample_state))"
    by (simp add: sample_ranking)
  have n: "sorted_teams (aggregation sample_state) ! 1 = TOR_entry"
    "sorted_teams (aggregation sample_state) ! Suc 1 = PIT_entry"
    by (simp_all add: sample_ranking)
  have p: "team_points (snd PIT_entry) = team_points (snd TOR_entry)"
    by (simp add: PIT_entry_def TOR_entry_def)
  show ?thesis
    using h ranking_sorted [OF h] n p by simp
qed

text \<open>
  C4, as the code has it. Teams with identical (points, goals) all appear in the ranked
  sequence, and the sort is stable: among the teams of one (points, goals) pair the
  ranked sequence keeps the order of the team dictionary, which is the order in which
  the teams were first met while iterating the source statistics. No further key is
  compared.
\<close>

theorem ties_keep_first_match_order:
  "filter (\<lambda>x. rank_key x = k) (sorted_teams (aggregation s))
   = filter (\<lambda>x. rank_key x = k) (nhl_team_stats (aggregation s))
   \<and> mset (sorted_teams (aggregation s)) = mset (nhl_team_stats (aggregation s))
   \<and> map fst (nhl_team_stats (aggregation s))
     = first_occurrences (matched_teams (player_to_team s) (all_player_stats s))"
proof -
  have "map fst (fst (foldl (aggregate_player (player_to_team s)) ([], []) (all_player_stats s)))
        = first_occurrences (matched_teams (player_to_team s) (all_player_stats s))"
    by (simp add: loop_keys)
  then show ?thesis
    by (simp add: aggregation_fields sort_teams_def py_sorted_reverse_stable
        py_sorted_reverse_mset aggregate_by_team_def)
qed

theorem ties_keep_first_match_order_witness:
  "filter (\<lambda>x. rank_key x = (3, 2)) [BOS_entry, ANA_entry] = [BOS_entry, ANA_entry]
   \<and> map fst [BOS_entry, ANA_entry]
     = first_occurrences (matched_teams sample_roster tie_stats)"
proof -
  have s: "all_player_stats (tie_state tie_stats) = tie_stats"
    "player_to_team (tie_state tie_stats) = sample_roster"
    by (simp_all add: tie_state_def)
  have "filter (\<lambda>x. rank_key x = (3, 2)) [BOS_entry, ANA_entry] = [BOS_entry, ANA_entry]"
    by (simp add: rank_key_def BOS_entry_def ANA_entry_def)
  then show ?thesis
    using ties_keep_first_match_order [of "(3, 2)" "tie_state tie_stats"]
    by (simp only: tie_teams tie_ranking s simp_thms)
qed

text \<open>
  C4 as stated fails: the same two tied teams, with the same entries, are ranked
  Boston before Anaheim when Boston's player comes first in the source statistics and
  Anaheim before Boston when the iteration order is reversed. Their order follows the
  iteration, not a key of the teams, and the first ranking is not ascending by code.
\<close>

theorem tie_order_follows_iteration:
  "rank_key BOS_entry = rank_key ANA_entry
   \<and> sorted_teams (aggregation (tie_state tie_stats)) = [BOS_entry, ANA_entry]
   \<and> sorted_teams (aggregation (tie_state (rev tie_stats))) = [ANA_entry, BOS_entry]"
  by (simp add: tie_ranking tie_ranking_rev) (simp add: rank_key_def BOS_entry_def ANA_entry_def)


text \<open>
  C9, as the code has it. The aggregation step is deterministic in its two input maps
  and modifies neither of them: two runs from states that agree on the two inputs
  produce the same ranked sequence and the same unmatched sequence, whatever else the
  states hold, and both inputs are afterwards what they were. The step is not free of
  side effects: it writes the three header lines of lines 402-404 to standard output,
  the same lines for every input.
\<close>

theorem aggregation_deterministic_and_prints:
  assumes "all_player_stats s1 = all_player_stats s2"
    and "player_to_team s1 = player_to_team s2"
  shows "sorted_teams (aggregation s1) = sorted_teams (aggregation s2)
       \<and> unmatched_players (aggregation s1) = unmatched_players (aggregation s2)
       \<and> nhl_team_stats (aggregation s1) = nhl_team_stats (aggregation s2)
       \<and> all_player_stats (aggregation s1) = all_player_stats s1
       \<and> player_to_team (aggregation s1) = player_to_team s1
       \<and> stdout (aggregation s1) = stdout s1 @ header_lines"
  using assms by (simp add: aggregation_fields aggregation_stdout)

theorem aggregation_deterministic_and_prints_witness:
  "sample_state \<noteq> stale_state
   \<and> sorted_teams (aggregation sample_state) = sorted_teams (aggregation stale_state)
   \<and> unmatched_players (aggregation sample_state) = unmatched_players (aggregation stale_state)
   \<and> all_player_stats (aggregation sample_state) = sample_stats
   \<and> stdout (aggregation sample_state) = header_lines"
proof -
  have h1: "all_player_stats sample_state = all_player_stats stale_state"
    by (simp add: stale_state_def)
  have h2: "player_to_team sample_state = player_to_team stale_state"
    by (simp add: stale_state_def)
  have d: "sample_state \<noteq> stale_state"
  proof
    assume "sample_state = stale_state"
    then have "unmatched_players sample_state = unmatched_players stale_state" by simp
    then show False by (simp add: sample_state_def stale_state_def)
  qed
  have s: "all_player_stats sample_state = sample_stats" "stdout sample_state = []"
    by (simp_all add: sample_state_def)
  show ?thesis
    using aggregation_deterministic_and_prints [OF h1 h2] d s by simp
qed

text \<open>
  C9 as stated fails: the step is not pure. Run on the sample inputs with nothing
  printed before, it leaves the three header lines on standard output.
\<close>

theorem aggregation_prints:
  "stdout sample_state = []
   \<and> stdout (aggregation sample_state)
     = [CHR 0x0A # replicate 70 CHR ''='', ''NHL TEAM RANKINGS BY OLYMPIC POINTS'',
        replicate 70 CHR ''='']
   \<and> stdout (aggregation sample_state) \<noteq> stdout sample_state"
  by (simp add: aggregation_stdout header_lines_def sample_state_def)


section \<open>normalize\_name\<close>

text \<open>
  What the script computes: the algorithm of the specification with the nonspacing
  marks (category Mn) as the class of dropped characters. Splitting on whitespace and
  joining with single spaces is trimming and collapsing runs.
\<close>

lemma normalize_name_computes:
  "normalize_name U x = spec_normalize is_nonspacing_mark U x"
  by (simp add: normalize_name_def spec_normalize_def is_nonspacing_mark_def collapse_spec)

text \<open>Three spellings of one name have one key.\<close>

lemma sample_spellings_share_key:
  "normalize_name ucd leo_dube = normalize_name ucd (ustr ''LEO DUBE'')
   \<and> normalize_name ucd (ustr ''LEO DUBE'') = normalize_name ucd (ustr ''leo   dube'')"
  by (simp only: key_leo_dube key_LEO_DUBE key_leo_spaces simp_thms)

lemma ucd_fields:
  "normalize_NFD ucd = ucd_normalize_NFD"
  "category ucd = ucd_category"
  "lower ucd = ucd_lower"
  by (simp_all add: ucd_def)

lemma ucd_category_12334: "ucd_category 12334 = ''Mc''"
  by (simp add: ucd_category_def ucd_category_ranges_def)

lemma ucd_category_119141: "ucd_category 119141 = ''Mc''"
  by (simp add: ucd_category_def ucd_category_ranges_def)

lemma enclosing_circle_is_mark: "is_combining_mark ucd 8413"
  by (simp add: is_combining_mark_def ucd_fields ucd_category_8413)

lemma spec_tone_marks: "spec_normalize is_combining_mark ucd tone_marks = [97]"
  by (simp add: tone_marks_def spec_normalize_def is_combining_mark_def spec_whitespace_def
      trim_def ucd_eval ucd_category_12334 ucd_category_119141 ucd_category_97
      py_isspace_def)

lemma spec_spec_tone_marks: "spec_normalize is_combining_mark ucd [97] = [97]"
  by (simp add: spec_normalize_def is_combining_mark_def spec_whitespace_def
      trim_def ucd_eval ucd_category_97 py_isspace_def)

text \<open>
  C5, where the code departs from it. The claim says that normalize drops every
  character classified as a combining mark, as the comment on line 57 announces
  ("filter out combining characters"); line 59 drops the category Mn only. U+20DD
  COMBINING ENCLOSING CIRCLE is a combining mark of category Me: in the key of
  a + U+20DD the script keeps it, where the stated algorithm gives a.
\<close>

theorem enclosing_mark_is_kept:
  "is_combining_mark ucd 8413
   \<and> normalize_name ucd circled_a = circled_a
   \<and> spec_normalize is_combining_mark ucd circled_a = [97]
   \<and> normalize_name ucd circled_a \<noteq> spec_normalize is_combining_mark ucd circled_a"
proof -
  have "circled_a \<noteq> [97]" by (simp add: circled_a_def)
  then show ?thesis
    by (simp only: enclosing_circle_is_mark key_circled_a spec_circled_a simp_thms)
qed

text \<open>
  C6, where the code departs from it. The claim says normalize (normalize x) =
  normalize x for every x. On a + U+302E + U+034F + U+1D165 the script gives
  a + U+302E + U+1D165 and, applied again, a + U+1D165 + U+302E. The two tone marks are
  combining marks of category Mc, with combining classes 224 and 216, that line 59
  does not drop; the grapheme joiner between them, of category Mn and class 0, holds
  their order under NFD and is dropped by the first pass, so the second pass reorders
  them. The stated algorithm, which drops all three, gives a both times.
\<close>

theorem normalize_name_not_idempotent:
  "normalize_name ucd tone_marks = [97, 12334, 119141]
   \<and> normalize_name ucd (normalize_name ucd tone_marks) = [97, 119141, 12334]
   \<and> normalize_name ucd (normalize_name ucd tone_marks) \<noteq> normalize_name ucd tone_marks
   \<and> spec_normalize is_combining_mark ucd tone_marks = [97]
   \<and> spec_normalize is_combining_mark ucd (spec_normalize is_combining_mark ucd tone_marks)
     = spec_normalize is_combining_mark ucd tone_marks"
proof -
  have "[97, 119141, 12334] \<noteq> [97, 12334, 119141 :: nat]" by simp
  then show ?thesis
    by (simp only: key_tone_marks key_key_tone_marks spec_tone_marks spec_spec_tone_marks
        simp_thms)
qed

text \<open>
  C7. normalize\_name does not reorder tokens: the keys of Cassidy Klein and of KLEIN
  Cassidy differ. It holds for every Unicode service that treats ASCII text as Unicode
  prescribes: NFD leaves it unchanged, no ASCII character is a nonspacing mark, and
  lowercasing maps A..Z to a..z.
\<close>

theorem token_order_changes_key:
  assumes "ascii_services U"
  shows "normalize_name U (ustr ''Cassidy Klein'') = ustr ''cassidy klein''
       \<and> normalize_name U (ustr ''KLEIN Cassidy'') = ustr ''klein cassidy''
       \<and> normalize_name U (ustr ''Cassidy Klein'') \<noteq> normalize_name U (ustr ''KLEIN Cassidy'')"
proof -
  have a: "normalize_name U (ustr ''Cassidy Klein'') = ustr ''cassidy klein''"
    by (subst normalize_name_ascii [OF assms])
       (simp_all add: ustr_def ascii_lower_def py_split.simps py_isspace_def)
  have b: "normalize_name U (ustr ''KLEIN Cassidy'') = ustr ''klein cassidy''"
    by (subst normalize_name_ascii [OF assms])
       (simp_all add: ustr_def ascii_lower_def py_split.simps py_isspace_def)
  have "ustr ''cassidy klein'' \<noteq> ustr ''klein cassidy''"
    by (simp add: ustr_def)
  with a b show ?thesis by (simp only: simp_thms)
qed

theorem token_order_changes_key_witness:
  "ascii_services ucd
   \<and> normalize_name ucd (ustr ''Cassidy Klein'') \<noteq> normalize_name ucd (ustr ''KLEIN Cassidy'')"
  using ucd_ascii_services token_order_changes_key [OF ucd_ascii_services]
  by (intro conjI) (elim conjE, assumption)+

section \<open>The sample records, merged\<close>

lemma ustr_eq_iff: "ustr a = ustr b \<longleftrightarrow> a = b"
proof -
  have "inj (of_char :: char \<Rightarrow> nat)"
    by (rule injI) simp
  then show ?thesis
    by (simp add: ustr_def inj_map_eq_map)
qed

lemma key_connor: "normalize_name ucd (ustr ''Connor McDavid'') = ustr ''connor mcdavid''"
  by (subst normalize_name_ascii [OF ucd_ascii_services])
     (simp_all add: ustr_def ascii_lower_def py_split.simps py_isspace_def)

lemma sample_collected:
  "collect_player_stats ucd sample_fetched =
     [(ustr ''leo dube'', sample_merged),
      (ustr ''connor mcdavid'', \<lparr>name = ustr ''Connor McDavid'', goals = 3, assists = 5\<rparr>)]"
  by (simp add: collect_player_stats_def sample_fetched_def sample_merged_def merge_player_def
      dict_get_def key_leo_dube key_LEO_DUBE key_connor ustr_eq_iff)

lemma sample_occurrences:
  "filter (\<lambda>p. normalize_name ucd (name p) = ustr ''leo dube'') (concat sample_fetched)
   = [\<lparr>name = leo_dube, goals = 1, assists = 2, points = 3\<rparr>,
      \<lparr>name = ustr ''LEO DUBE'', goals = 2, assists = 0, points = 2\<rparr>]"
  by (simp add: sample_fetched_def key_leo_dube key_LEO_DUBE key_connor ustr_eq_iff)

lemma sample_entry:
  "dict_get (collect_player_stats ucd sample_fetched) (ustr ''leo dube'') = Some sample_merged"
  by (simp add: sample_collected dict_get_def)

section \<open>Merging the fetched records\<close>

text \<open>
  C8. In the merged statistics, the goals of an entry are the sum of the goals of all
  fetched records with the entry's key, and its assists the sum of their assists; when
  one record only has the key, they are that record's goals and assists.
\<close>

theorem collisions_are_summed:
  assumes "dict_get (collect_player_stats U fetched) k = Some e"
  shows "goals e = (\<Sum>p\<leftarrow>filter (\<lambda>p. normalize_name U (name p) = k) (concat fetched). goals p)
       \<and> assists e = (\<Sum>p\<leftarrow>filter (\<lambda>p. normalize_name U (name p) = k) (concat fetched). assists p)
       \<and> (\<forall>p. filter (\<lambda>p. normalize_name U (name p) = k) (concat fetched) = [p]
              \<longrightarrow> goals e = goals p \<and> assists e = assists p)"
proof -
  let ?ps = "filter (\<lambda>p. normalize_name U (name p) = k) (concat fetched)"
  have m: "foldl merge_entry None ?ps = Some e"
    using assms by (simp only: dict_get_collect)
  have s: "goals e = (\<Sum>p\<leftarrow>?ps. goals p) \<and> assists e = (\<Sum>p\<leftarrow>?ps. assists p)"
  proof (cases ?ps)
    case Nil
    with m show ?thesis by simp
  next
    case (Cons p qs)
    have "foldl merge_entry None (p # qs) = Some e"
      using m by (simp only: Cons)
    then have "Some \<lparr>name = name p, goals = (\<Sum>q\<leftarrow>p # qs. goals q),
                     assists = (\<Sum>q\<leftarrow>p # qs. assists q)\<rparr> = Some e"
      by (simp only: merge_entries_None list.case)
    then have "e = \<lparr>name = name p, goals = (\<Sum>q\<leftarrow>p # qs. goals q),
                     assists = (\<Sum>q\<leftarrow>p # qs. assists q)\<rparr>"
      by simp
    then show ?thesis by (simp add: Cons)
  qed
  then show ?thesis by simp
qed

theorem collisions_are_summed_witness:
  "dict_get (collect_player_stats ucd sample_fetched) (ustr ''leo dube'') = Some sample_merged
   \<and> goals sample_merged = 1 + 2 \<and> assists sample_merged = 2 + 0"
proof -
  note t = collisions_are_summed [OF sample_entry]
  have "goals sample_merged = 1 + 2"
    using t [THEN conjunct1] by (simp only: sample_occurrences) simp
  moreover have "assists sample_merged = 2 + 0"
    using t [THEN conjunct2, THEN conjunct1] by (simp only: sample_occurrences) simp
  ultimately show ?thesis using sample_entry by (intro conjI)
qed

text \<open>
  C10. An entry of the merged statistics carries the display name of the first fetched
  record with its key; a later record with the same key adds its goals and assists and
  its name is not used.
\<close>

theorem first_display_name_is_kept:
  assumes "dict_get (collect_player_stats U fetched) k = Some e"
  shows "filter (\<lambda>p. normalize_name U (name p) = k) (concat fetched) \<noteq> []
       \<and> name e = name (hd (filter (\<lambda>p. normalize_name U (name p) = k) (concat fetched)))"
proof -
  let ?ps = "filter (\<lambda>p. normalize_name U (name p) = k) (concat fetched)"
  have m: "foldl merge_entry None ?ps = Some e"
    using assms by (simp only: dict_get_collect)
  show ?thesis
  proof (cases ?ps)
    case Nil
    with m show ?thesis by simp
  next
    case (Cons p qs)
    have "foldl merge_entry None (p # qs) = Some e"
      using m by (simp only: Cons)
    then have "Some \<lparr>name = name p, goals = (\<Sum>q\<leftarrow>p # qs. goals q),
                     assists = (\<Sum>q\<leftarrow>p # qs. assists q)\<rparr> = Some e"
      by (simp only: merge_entries_None list.case)
    then have "e = \<lparr>name = name p, goals = (\<Sum>q\<leftarrow>p # qs. goals q),
                     assists = (\<Sum>q\<leftarrow>p # qs. assists q)\<rparr>"
      by simp
    then show ?thesis by (simp add: Cons)
  qed
qed

theorem first_display_name_is_kept_witness:
  "dict_get (collect_player_stats ucd sample_fetched) (ustr ''leo dube'') = Some sample_merged
   \<and> name sample_merged = leo_dube
   \<and> name sample_merged \<noteq> ustr ''LEO DUBE''"
proof -
  note t = first_display_name_is_kept [OF sample_entry]
  have "name sample_merged = leo_dube"
    using t [THEN conjunct2] by (simp only: sample_occurrences) simp
  moreover have "leo_dube \<noteq> ustr ''LEO DUBE''"
    by (simp add: leo_dube_def ustr_def)
  ultimately show ?thesis using sample_entry by simp
qed

end
